theory Spec2Isabelle
  imports Main "HOL-Library.Word"
begin

unbundle bit_operations_syntax

section \<open>The sector codec of diskimage.js\<close>

text \<open>
  A sector of a disk image is the object \<open>{c, h, s, l, d}\<close> of diskimage.js: cylinder, head,
  sector ID, length in bytes and the array \<open>d\<close> of signed 32-bit values, the last of which
  repeats when the array is shorter than \<open>l >> 2\<close>.  The values of \<open>d\<close> are bit patterns
  (\<open>readInt32LE\<close> produces them), so they are \<open>32 word\<close>; a byte read from a sector is a
  JavaScript number, \<open>-1\<close> or \<open>0..255\<close>, so it is an \<open>int\<close>.  Byte indices and lengths are
  unsigned counts below \<open>2^31\<close> and are \<open>nat\<close>.

  The optional properties are options: \<open>None\<close> is JavaScript's \<open>undefined\<close>.  \<open>iModify\<close> and
  \<open>cModify\<close> exist only on the sectors of a writable disk.
\<close>

type_synonym int32 = "32 word"

record Sector =
  sec_c :: nat
  sec_h :: nat
  sec_s :: nat
  sec_l :: nat
  sec_d :: "int32 list"
  dataError :: "int option"
  iModify :: "nat option"
  cModify :: "nat option"

text \<open>
  \<open>adw[adw.length-1]\<close>: the last stored word.  On an empty array the JavaScript value is
  \<open>undefined\<close>, which every consumer in this module passes through \<open>>>\<close>, \<open>&\<close> or \<open>|\<close>, where it
  counts as \<open>0\<close>.
\<close>

definition last_dw :: "int32 list \<Rightarrow> int32" where
  "last_dw adw = (if adw = [] then 0 else last adw)"

text \<open>
  \<open>read(sector, iByte)\<close>, lines 2983-2998.  \<open>sector\<close> may be null (\<open>None\<close>).  \<open>dw >> n\<close> is the
  sign-propagating shift of a 32-bit value, \<open>& 0xff\<close> makes the result non-negative.
\<close>

definition read :: "Sector option \<Rightarrow> nat \<Rightarrow> int" where
  "read sector iByte =
     (case sector of
        None \<Rightarrow> - 1
      | Some s \<Rightarrow>
          if iByte < sec_l s then
            let adw = sec_d s;
                idw = drop_bit 2 iByte;
                dw = (if idw < length adw then adw ! idw else last_dw adw)
            in uint (signed_drop_bit (push_bit 3 (iByte AND 3)) dw AND 0xff)
          else - 1)"

text \<open>
  \<open>write(sector, iByte, b)\<close>, lines 3104-3136 (\<open>write\<close> is reserved in Isabelle, hence \<open>write_byte\<close>).  The result is \<open>true\<close>, \<open>false\<close>
  (write-protected) or \<open>null\<close> (out of bounds): \<open>Some True\<close>, \<open>Some False\<close>, \<open>None\<close>; the sector
  is returned as the call leaves it.  \<open>b << nShift\<close> converts \<open>b\<close> to 32 bits first.
  The loop \<open>for (i = adw.length; i <= idw; i++) adw[i] = dwPattern\<close> appends
  \<open>idw + 1 - adw.length\<close> copies of the pattern.
\<close>

definition write_byte :: "bool \<Rightarrow> Sector \<Rightarrow> nat \<Rightarrow> int \<Rightarrow> Sector \<times> bool option" where
  "write_byte fWritable sector iByte b =
     (if \<not> fWritable then (sector, Some False)
      else if iByte < sec_l sector then
        (if b \<noteq> read (Some sector) iByte then
           let adw = sec_d sector;
               dwPattern = last_dw adw;
               idw = drop_bit 2 iByte;
               nShift = push_bit 3 (iByte AND 3);
               adw1 = adw @ replicate (Suc idw - length adw) dwPattern;
               (iM, cM) =
                 (case cModify sector of
                    None \<Rightarrow> (Some idw, Some 1)
                  | Some c \<Rightarrow>
                      if c = 0 then (Some idw, Some 1)
                      else (case iModify sector of
                              None \<Rightarrow> (None, Some c)
                            | Some i \<Rightarrow>
                                if idw < i then (Some idw, Some (c + (i - idw)))
                                else if idw \<ge> i + c then (Some i, Some (c + (idw - (i + c)) + 1))
                                else (Some i, Some c)));
               adw2 = adw1[idw := (adw1 ! idw AND NOT (push_bit nShift 0xff))
                                     OR push_bit nShift (word_of_int b)]
           in (sector\<lparr>sec_d := adw2, iModify := iM, cModify := cM\<rparr>, Some True)
         else (sector, Some True))
      else (sector, None))"

text \<open>A run of writes on one sector, in order, as a drive performs them.\<close>

fun writes :: "bool \<Rightarrow> Sector \<Rightarrow> (nat \<times> int) list \<Rightarrow> Sector" where
  "writes fWritable sector [] = sector"
| "writes fWritable sector ((iByte, b) # ws) =
     writes fWritable (fst (write_byte fWritable sector iByte b)) ws"

text \<open>
  The word indices a run of writes modifies: a write counts when it is in bounds and its
  byte differs from the byte the sector holds at that moment.
\<close>

fun modified :: "Sector \<Rightarrow> (nat \<times> int) list \<Rightarrow> nat list" where
  "modified sector [] = []"
| "modified sector ((iByte, b) # ws) =
     (if iByte < sec_l sector \<and> b \<noteq> read (Some sector) iByte
      then drop_bit 2 iByte # modified (fst (write_byte True sector iByte b)) ws
      else modified (fst (write_byte True sector iByte b)) ws)"

text \<open>The word at index \<open>j\<close> of the sector once the stored array is expanded.\<close>

definition word_at :: "Sector \<Rightarrow> nat \<Rightarrow> int32" where
  "word_at s j = (if j < length (sec_d s) then sec_d s ! j else last_dw (sec_d s))"

text \<open>An all-zero 512-byte sector of a writable disk, as \<open>buildSector\<close> leaves it.\<close>

definition zero_sector :: Sector where
  "zero_sector = \<lparr>sec_c = 0, sec_h = 0, sec_s = 1, sec_l = 512, sec_d = [0],
     dataError = None, iModify = Some 0, cModify = Some 0\<rparr>"


subsection \<open>Notions used to state the properties of the codec\<close>

text \<open>
  \<open>set_byte w k b\<close> is the word \<open>write\<close> stores: byte \<open>k\<close> of \<open>w\<close> replaced by \<open>b\<close>.
  \<open>expand_to adw idw\<close> is the array after the fill loop of \<open>write\<close>.
  \<open>covers s T\<close> says that \<open>iModify\<close> and \<open>cModify\<close> of \<open>s\<close> delimit the smallest contiguous range of
  word indices that holds every index of \<open>T\<close>; with no index yet, \<open>cModify\<close> is still unset or zero.
\<close>

definition set_byte :: "int32 \<Rightarrow> nat \<Rightarrow> int \<Rightarrow> int32" where
  "set_byte w k b = (w AND NOT (push_bit (8 * k) 0xff)) OR push_bit (8 * k) (word_of_int b)"

definition expand_to :: "int32 list \<Rightarrow> nat \<Rightarrow> int32 list" where
  "expand_to adw idw = adw @ replicate (Suc idw - length adw) (last_dw adw)"

definition covers :: "Sector \<Rightarrow> nat list \<Rightarrow> bool" where
  "covers s T = (if T = [] then cModify s = None \<or> cModify s = Some 0
                 else iModify s = Some (Min (set T)) \<and>
                      cModify s = Some (Max (set T) - Min (set T) + 1))"


text \<open>
  The sector of the witness stores two words of a 512-byte sector: byte 5 is the second byte
  of the second word, byte 9 falls past the stored array and comes from the last stored word,
  and byte 512 is out of the sector.
\<close>

definition c2_sector :: Sector where
  "c2_sector = \<lparr>sec_c = 0, sec_h = 0, sec_s = 1, sec_l = 512, sec_d = [0x04030201, 0x88776655],
     dataError = None, iModify = None, cModify = None\<rparr>"


section \<open>Byte buffers and exceptions\<close>

text \<open>
  The exceptions a call can end with.  \<open>RangeError\<close> comes from a buffer access out of range,
  \<open>TypeError\<close> from a property access on \<open>undefined\<close>, \<open>AssertionError\<close> from \<open>assert\<close>.
\<close>

datatype js_error = RangeError | TypeError | AssertionError

text \<open>
  \<open>assert\<close> belongs to the device (device.js, not part of these sources).  Whether a failed
  assertion throws depends on the build, so the models take a flag \<open>dbg\<close>: with \<open>dbg\<close> a failed
  assertion ends the call with \<open>AssertionError\<close>, without it the assertion does nothing.
\<close>

definition assert_fails :: "bool \<Rightarrow> bool \<Rightarrow> bool" where
  "assert_fails dbg f = (dbg \<and> \<not> f)"

text \<open>
  Modelled from the spec: the class \<open>DataBuffer\<close> (the spec's ByteView: a random-access view
  over a byte buffer with little- and big-endian accessors), which diskimage.js uses and does
  not define.  A buffer is the list of its bytes.  An accessor whose range leaves the buffer
  throws \<open>RangeError\<close> (\<open>None\<close> here); \<open>slice\<close> clamps its bounds to the buffer.
\<close>

type_synonym DataBuffer = "8 word list"

definition readUInt8 :: "DataBuffer \<Rightarrow> nat \<Rightarrow> nat option" where
  "readUInt8 db off = (if off < length db then Some (unat (db ! off)) else None)"

definition readUInt16LE :: "DataBuffer \<Rightarrow> nat \<Rightarrow> nat option" where
  "readUInt16LE db off =
     (if off + 2 \<le> length db then Some (unat (db ! off) + 256 * unat (db ! (off + 1))) else None)"

definition readUInt16BE :: "DataBuffer \<Rightarrow> nat \<Rightarrow> nat option" where
  "readUInt16BE db off =
     (if off + 2 \<le> length db then Some (256 * unat (db ! off) + unat (db ! (off + 1))) else None)"

definition le32 :: "8 word \<Rightarrow> 8 word \<Rightarrow> 8 word \<Rightarrow> 8 word \<Rightarrow> int32" where
  "le32 b0 b1 b2 b3 =
     ucast b0 OR push_bit 8 (ucast b1) OR push_bit 16 (ucast b2) OR push_bit 24 (ucast b3)"

definition readInt32LE :: "DataBuffer \<Rightarrow> nat \<Rightarrow> int32 option" where
  "readInt32LE db off =
     (if off + 4 \<le> length db
      then Some (le32 (db ! off) (db ! (off + 1)) (db ! (off + 2)) (db ! (off + 3)))
      else None)"

definition readInt32BE :: "DataBuffer \<Rightarrow> nat \<Rightarrow> int32 option" where
  "readInt32BE db off =
     (if off + 4 \<le> length db
      then Some (le32 (db ! (off + 3)) (db ! (off + 2)) (db ! (off + 1)) (db ! off))
      else None)"

definition readUInt32LE :: "DataBuffer \<Rightarrow> nat \<Rightarrow> nat option" where
  "readUInt32LE db off = map_option unat (readInt32LE db off)"

definition readUInt32BE :: "DataBuffer \<Rightarrow> nat \<Rightarrow> nat option" where
  "readUInt32BE db off = map_option unat (readInt32BE db off)"

definition writeUInt8 :: "DataBuffer \<Rightarrow> nat \<Rightarrow> nat \<Rightarrow> DataBuffer option" where
  "writeUInt8 db v off = (if off < length db then Some (db[off := of_nat v]) else None)"

definition slice :: "DataBuffer \<Rightarrow> nat \<Rightarrow> nat \<Rightarrow> DataBuffer" where
  "slice db start end = take (end - start) (drop start db)"


section \<open>Building sectors\<close>

text \<open>
  \<open>adw[i] = v\<close> on a JavaScript array: a store past the end extends the array, the cells skipped
  stay \<open>undefined\<close> (read as \<open>0\<close>, see \<open>last_dw\<close>).
\<close>

definition js_set :: "int32 list \<Rightarrow> nat \<Rightarrow> int32 \<Rightarrow> int32 list" where
  "js_set adw i v =
     (if i < length adw then adw[i := v] else adw @ replicate (i - length adw) 0 @ [v])"

text \<open>
  The first loop of \<open>initSector\<close>, lines 2677-2694: \<open>idw\<close> runs up to \<open>cdw\<close>; a missing word is taken
  from \<open>dwPattern\<close> when that is defined and from the last stored word otherwise, and stored;
  \<open>cPrev\<close> counts how many times in a row the word has repeated.  \<open>dwPrev\<close> starts as \<open>null\<close>.
\<close>

function initSector_scan ::
  "int32 list \<Rightarrow> nat \<Rightarrow> int32 option \<Rightarrow> nat \<Rightarrow> int32 option \<Rightarrow> nat \<Rightarrow> int32 list \<times> nat" where
  "initSector_scan adw cdw dwPattern idw dwPrev cPrev =
     (if idw < cdw then
        (if idw < length adw then
           (if dwPrev = Some (adw ! idw)
            then initSector_scan adw cdw dwPattern (Suc idw) dwPrev (Suc cPrev)
            else initSector_scan adw cdw dwPattern (Suc idw) (Some (adw ! idw)) 0)
         else
           (let dw = (case dwPattern of Some p \<Rightarrow> p | None \<Rightarrow> last_dw adw);
                adw' = js_set adw idw dw
            in if dwPrev = Some dw
               then initSector_scan adw' cdw dwPattern (Suc idw) dwPrev (Suc cPrev)
               else initSector_scan adw' cdw dwPattern (Suc idw) (Some dw) 0))
      else (adw, cPrev))"
  by pat_completeness auto
termination
  by (relation "measure (\<lambda>(adw, cdw, dwPattern, idw, dwPrev, cPrev). cdw - idw)") auto

declare initSector_scan.simps [simp del]

text \<open>
  The words a sector is checksummed over, lines 2702-2706: every stored word, except the last
  one when the stored array is shorter than \<open>cdw\<close>.  The sum wraps at 32 bits.
\<close>

definition checksum_words :: "int32 list \<Rightarrow> nat \<Rightarrow> int32 list" where
  "checksum_words adw cdw = take (if length adw < cdw then length adw - 1 else length adw) adw"

definition sum32 :: "int32 list \<Rightarrow> int32" where
  "sum32 ws = foldl (+) 0 ws"

text \<open>
  \<open>initSector(sector, adw, cbSector, dwPattern)\<close>, lines 2674-2719.  \<open>adw\<close> is the array the sector
  holds as its data, so the sector returned holds the shortened array.  The disk state the
  function reads and updates is passed in and out: \<open>fWritable\<close> and \<open>dwChecksum\<close> (\<open>None\<close> while
  the property is undefined; adding to \<open>undefined\<close> gives \<open>NaN\<close>, which \<open>&\<close> turns into \<open>0\<close>).
  \<open>adw.length -= cPrev\<close> cannot go below zero: the loop leaves at least \<open>cdw\<close> words and \<open>cPrev < cdw\<close>.
\<close>

definition initSector ::
  "bool \<Rightarrow> int32 option \<Rightarrow> Sector \<Rightarrow> int32 list \<Rightarrow> nat \<Rightarrow> int32 option \<Rightarrow> Sector \<times> int32 option" where
  "initSector fWritable dwChecksum sector adw cbSector dwPattern =
     (let cdw = drop_bit 2 cbSector;
          (adw1, cPrev) = initSector_scan adw cdw dwPattern 0 None 0;
          adw2 = take (length adw1 - cPrev) adw1;
          dwSum = sum32 (checksum_words adw2 cdw);
          dwChecksum' = (case dwChecksum of None \<Rightarrow> 0 | Some c \<Rightarrow> c + dwSum);
          sector' = sector\<lparr>sec_d := adw2\<rparr>
      in (if fWritable then sector'\<lparr>iModify := Some 0, cModify := Some 0\<rparr> else sector',
          Some dwChecksum'))"

text \<open>
  The loop of \<open>buildSector\<close>, lines 2572-2574, over the \<open>n\<close> words still to read:
  \<open>adw[idw] = db && ib < db.length ? db.readInt32LE(ib) : 0\<close>.
\<close>

fun buildSector_words :: "DataBuffer option \<Rightarrow> nat \<Rightarrow> nat \<Rightarrow> js_error + int32 list" where
  "buildSector_words db 0 ib = Inr []"
| "buildSector_words db (Suc n) ib =
     (case (case db of
              None \<Rightarrow> Inr 0
            | Some buf \<Rightarrow>
                if ib < length buf
                then (case readInt32LE buf ib of None \<Rightarrow> Inl RangeError | Some dw \<Rightarrow> Inr dw)
                else Inr 0) of
        Inl e \<Rightarrow> Inl e
      | Inr dw \<Rightarrow>
          (case buildSector_words db n (ib + 4) of
             Inl e \<Rightarrow> Inl e
           | Inr adw \<Rightarrow> Inr (dw # adw)))"

text \<open>\<open>buildSector(iCylinder, iHead, idSector, cbSector, db, ib)\<close>, lines 2568-2583.\<close>

definition buildSector ::
  "bool \<Rightarrow> int32 option \<Rightarrow> nat \<Rightarrow> nat \<Rightarrow> nat \<Rightarrow> nat \<Rightarrow> DataBuffer option \<Rightarrow> nat
     \<Rightarrow> js_error + Sector \<times> int32 option" where
  "buildSector fWritable dwChecksum iCylinder iHead idSector cbSector db ib =
     (case buildSector_words db (drop_bit 2 cbSector) ib of
        Inl e \<Rightarrow> Inl e
      | Inr adw \<Rightarrow>
          Inr (initSector fWritable dwChecksum
                 \<lparr>sec_c = iCylinder, sec_h = iHead, sec_s = idSector, sec_l = cbSector,
                  sec_d = adw, dataError = None, iModify = None, cModify = None\<rparr>
                 adw cbSector (Some 0)))"

text \<open>
  A sector object as \<open>JSON.parse\<close> delivers it to \<open>rebuildSector\<close>: the current keys \<open>c h s l d\<close> or
  the deprecated ones \<open>sector length data pattern\<close>, any of which may be absent.
\<close>

record JSONSector =
  js_c :: "nat option"
  js_h :: "nat option"
  js_s :: "nat option"
  js_l :: "nat option"
  js_d :: "int32 list option"
  js_sector :: "nat option"
  js_length :: "nat option"
  js_data :: "int32 list option"
  js_pattern :: "int32 option"
  js_dataError :: "int option"

text \<open>
  \<open>rebuildSector(iCylinder, iHead, sector)\<close>, lines 2606-2662.  \<open>x || y\<close> takes \<open>y\<close> when \<open>x\<close> is
  undefined or zero.  A sector with neither \<open>s\<close> nor \<open>sector\<close> keeps an undefined ID, written \<open>0\<close>
  here; no property below depends on the ID.
\<close>

definition rebuildSector ::
  "bool \<Rightarrow> bool \<Rightarrow> int32 option \<Rightarrow> nat \<Rightarrow> nat \<Rightarrow> JSONSector \<Rightarrow> js_error + Sector \<times> int32 option" where
  "rebuildSector dbg fWritable dwChecksum iCylinder iHead sector =
     (if assert_fails dbg (case js_c sector of None \<Rightarrow> True | Some c \<Rightarrow> c = iCylinder)
      then Inl AssertionError
      else if assert_fails dbg (case js_h sector of None \<Rightarrow> True | Some h \<Rightarrow> h = iHead)
      then Inl AssertionError
      else
        let (idSector, dwPattern) =
              (case js_s sector of
                 Some s \<Rightarrow> (s, None)
               | None \<Rightarrow>
                   (case js_sector sector of None \<Rightarrow> 0 | Some s \<Rightarrow> s,
                    Some (case js_pattern sector of None \<Rightarrow> 0 | Some p \<Rightarrow> p)));
            cbSector =
              (case js_l sector of
                 Some l \<Rightarrow> l
               | None \<Rightarrow> (case js_length sector of None \<Rightarrow> 512 | Some l \<Rightarrow> if l = 0 then 512 else l))
        in (case (case js_d sector of
                    Some adw \<Rightarrow> Inr adw
                  | None \<Rightarrow>
                      (case js_data sector of
                         Some adw \<Rightarrow> Inr adw
                       | None \<Rightarrow>
                           if assert_fails dbg (dwPattern \<noteq> None) then Inl AssertionError
                           else Inr [case dwPattern of None \<Rightarrow> 0 | Some p \<Rightarrow> p])) of
              Inl e \<Rightarrow> Inl e
            | Inr adw \<Rightarrow>
                Inr (initSector fWritable dwChecksum
                       \<lparr>sec_c = iCylinder, sec_h = iHead, sec_s = idSector, sec_l = cbSector,
                        sec_d = adw, dataError = js_dataError sector,
                        iModify = None, cModify = None\<rparr>
                       adw cbSector dwPattern)))"


subsection \<open>Notions used to state the properties of sector building\<close>

text \<open>
  \<open>expand_words adw cdw pat\<close> is the content \<open>initSector\<close> is given: the array \<open>adw\<close>, continued up
  to \<open>cdw\<close> words with the separate pattern when there is one and with its last word otherwise.
  \<open>same_tail xs n c\<close> says that the last \<open>c + 1\<close> of the first \<open>n\<close> words of \<open>xs\<close> are equal.
  \<open>buffer_word db ib j\<close> is word \<open>j\<close> of the content \<open>buildSector\<close> reads at offset \<open>ib\<close>.
\<close>

definition scan_fill :: "int32 list \<Rightarrow> int32 option \<Rightarrow> int32" where
  "scan_fill adw pat = (case pat of Some p \<Rightarrow> p | None \<Rightarrow> last_dw adw)"

definition expand_words :: "int32 list \<Rightarrow> nat \<Rightarrow> int32 option \<Rightarrow> int32 list" where
  "expand_words adw cdw pat = adw @ replicate (cdw - length adw) (scan_fill adw pat)"

definition same_tail :: "int32 list \<Rightarrow> nat \<Rightarrow> nat \<Rightarrow> bool" where
  "same_tail xs n c = (c < n \<and> (\<forall>k. n - 1 - c \<le> k \<and> k < n \<longrightarrow> xs ! k = xs ! (n - 1)))"

definition buffer_word :: "DataBuffer option \<Rightarrow> nat \<Rightarrow> nat \<Rightarrow> int32" where
  "buffer_word db ib j =
     (case db of
        None \<Rightarrow> 0
      | Some buf \<Rightarrow>
          if ib + 4 * j < length buf
          then le32 (buf ! (ib + 4 * j)) (buf ! (ib + 4 * j + 1)) (buf ! (ib + 4 * j + 2))
                 (buf ! (ib + 4 * j + 3))
          else 0)"

text \<open>
  The invariant of the first loop of \<open>initSector\<close> before iteration \<open>idw\<close>, and what the loop
  establishes.
\<close>

definition scan_ok :: "int32 list \<Rightarrow> nat \<Rightarrow> int32 option \<Rightarrow> nat \<Rightarrow> bool" where
  "scan_ok adw idw dwPrev cPrev =
     ((idw = 0 \<and> cPrev = 0 \<and> dwPrev = None) \<or>
      (0 < idw \<and> dwPrev = Some (adw ! (idw - 1)) \<and> same_tail adw idw cPrev))"

definition scan_post :: "int32 list \<Rightarrow> nat \<Rightarrow> int32 option \<Rightarrow> int32 list \<times> nat \<Rightarrow> bool" where
  "scan_post adw cdw pat r =
     (fst r = expand_words adw cdw pat \<and> (0 < cdw \<longrightarrow> same_tail (fst r) cdw (snd r)) \<and>
      (cdw = 0 \<longrightarrow> snd r = 0))"

text \<open>
  \<open>compress adw cdw pat\<close> is the array \<open>initSector\<close> leaves in the sector.  \<open>json_data\<close> and
  \<open>json_pattern\<close> are the array and the separate pattern \<open>rebuildSector\<close> takes from a JSON
  sector, and \<open>json_length\<close> the sector length it takes.
\<close>

definition compress :: "int32 list \<Rightarrow> nat \<Rightarrow> int32 option \<Rightarrow> int32 list" where
  "compress adw cdw pat =
     (case initSector_scan adw cdw pat 0 None 0 of (adw1, cPrev) \<Rightarrow> take (length adw1 - cPrev) adw1)"

definition json_pattern :: "JSONSector \<Rightarrow> int32 option" where
  "json_pattern sector =
     (case js_s sector of
        Some s \<Rightarrow> None
      | None \<Rightarrow> Some (case js_pattern sector of None \<Rightarrow> 0 | Some p \<Rightarrow> p))"

definition json_data :: "JSONSector \<Rightarrow> int32 list" where
  "json_data sector =
     (case js_d sector of
        Some adw \<Rightarrow> adw
      | None \<Rightarrow>
          (case js_data sector of
             Some adw \<Rightarrow> adw
           | None \<Rightarrow> [case json_pattern sector of None \<Rightarrow> 0 | Some p \<Rightarrow> p]))"

definition json_length :: "JSONSector \<Rightarrow> nat" where
  "json_length sector =
     (case js_l sector of
        Some l \<Rightarrow> l
      | None \<Rightarrow> (case js_length sector of None \<Rightarrow> 512 | Some l \<Rightarrow> if l = 0 then 512 else l))"


text \<open>
  Sectors used as examples: a 16-byte sector built from a buffer whose last three words are
  equal; a 2-byte sector; and a JSON sector of 4 bytes that carries two data words.
\<close>

definition c3_buffer :: DataBuffer where
  "c3_buffer = [1, 0, 0, 0, 2, 0, 0, 0, 2, 0, 0, 0, 2, 0, 0, 0]"

definition c3_sector :: Sector where
  "c3_sector = \<lparr>sec_c = 0, sec_h = 0, sec_s = 1, sec_l = 16, sec_d = [1, 2],
     dataError = None, iModify = Some 0, cModify = Some 0\<rparr>"

definition c3_short_sector :: Sector where
  "c3_short_sector = \<lparr>sec_c = 0, sec_h = 0, sec_s = 1, sec_l = 2, sec_d = [],
     dataError = None, iModify = None, cModify = None\<rparr>"

definition c3_json :: JSONSector where
  "c3_json = \<lparr>js_c = Some 0, js_h = Some 0, js_s = Some 1, js_l = Some 4, js_d = Some [1, 2],
     js_sector = None, js_length = None, js_data = None, js_pattern = None,
     js_dataError = None\<rparr>"

definition c3_long_sector :: Sector where
  "c3_long_sector = \<lparr>sec_c = 0, sec_h = 0, sec_s = 1, sec_l = 4, sec_d = [1, 2],
     dataError = None, iModify = None, cModify = None\<rparr>"


section \<open>The disk image\<close>

text \<open>
  The properties of a \<open>DiskImage\<close> object that the modelled functions read or assign.  The grid
  \<open>aDiskData\<close> is indexed by cylinder, head and sector index; an array cell that was never
  assigned is \<open>None\<close>, and so is the grid before a disk is built.  \<open>dwChecksum\<close> is \<open>None\<close> until a
  builder assigns it (the constructor, lines 98-109, does not).  \<open>abOrigBPB\<close> is an array of
  numbers: the offset of the boot sector followed by the bytes saved from it.
\<close>

record DiskImage =
  di_fWritable :: bool
  di_hash :: string
  di_aDiskData :: "Sector option list list list option"
  di_cbDiskData :: nat
  di_dwChecksum :: "int32 option"
  di_nCylinders :: nat
  di_nHeads :: nat
  di_nSectors :: nat
  di_cbSector :: nat
  di_abOrigBPB :: "nat list"
  di_fBPBModified :: bool

text \<open>\<open>new DiskImage(device, diskName, fWritable)\<close>, lines 98-109; the geometry is not yet set.\<close>

definition new_DiskImage :: "bool \<Rightarrow> DiskImage" where
  "new_DiskImage fWritable =
     \<lparr>di_fWritable = fWritable, di_hash = ''none'', di_aDiskData = None, di_cbDiskData = 0,
      di_dwChecksum = None, di_nCylinders = 0, di_nHeads = 0, di_nSectors = 0, di_cbSector = 0,
      di_abOrigBPB = [], di_fBPBModified = False\<rparr>"

text \<open>Sequencing of calls that may throw: the first exception ends the computation.\<close>

definition bindE :: "js_error + 'a \<Rightarrow> ('a \<Rightarrow> js_error + 'b) \<Rightarrow> js_error + 'b" where
  "bindE m f = (case m of Inl e \<Rightarrow> Inl e | Inr v \<Rightarrow> f v)"

definition ranged :: "'a option \<Rightarrow> js_error + 'a" where
  "ranged r = (case r of None \<Rightarrow> Inl RangeError | Some v \<Rightarrow> Inr v)"

subsection \<open>Constants, lines 3267-3555\<close>

definition BOOT_SIG_OFFSET :: nat where "BOOT_SIG_OFFSET = 0x1FE"
definition BOOT_SIGNATURE :: nat where "BOOT_SIGNATURE = 0xAA55"
definition BPB_JMP_OPCODE :: nat where "BPB_JMP_OPCODE = 0x000"
definition BPB_OEM_STRING :: nat where "BPB_OEM_STRING = 0x003"
definition BPB_SECTOR_BYTES :: nat where "BPB_SECTOR_BYTES = 0x00B"
definition BPB_CLUSTER_SECS :: nat where "BPB_CLUSTER_SECS = 0x00D"
definition BPB_RESERVED_SECS :: nat where "BPB_RESERVED_SECS = 0x00E"
definition BPB_TOTAL_FATS :: nat where "BPB_TOTAL_FATS = 0x010"
definition BPB_ROOT_DIRENTS :: nat where "BPB_ROOT_DIRENTS = 0x011"
definition BPB_TOTAL_SECS :: nat where "BPB_TOTAL_SECS = 0x013"
definition BPB_MEDIA_ID :: nat where "BPB_MEDIA_ID = 0x015"
definition BPB_FAT_SECS :: nat where "BPB_FAT_SECS = 0x016"
definition BPB_TRACK_SECS :: nat where "BPB_TRACK_SECS = 0x018"
definition BPB_TOTAL_HEADS :: nat where "BPB_TOTAL_HEADS = 0x01A"
definition BPB_HIDDEN_SECS :: nat where "BPB_HIDDEN_SECS = 0x01C"
definition BPB_LARGE_SECS :: nat where "BPB_LARGE_SECS = 0x020"

definition MEDIA_160KB :: nat where "MEDIA_160KB = 0xFE"
definition MEDIA_180KB :: nat where "MEDIA_180KB = 0xFC"
definition MEDIA_320KB :: nat where "MEDIA_320KB = 0xFF"
definition MEDIA_360KB :: nat where "MEDIA_360KB = 0xFD"
definition MEDIA_720KB :: nat where "MEDIA_720KB = 0xF9"
definition MEDIA_1200KB :: nat where "MEDIA_1200KB = 0xF9"
definition MEDIA_FIXED :: nat where "MEDIA_FIXED = 0xF8"
definition MEDIA_1440KB :: nat where "MEDIA_1440KB = 0xF0"
definition MEDIA_2880KB :: nat where "MEDIA_2880KB = 0xF0"

text \<open>
  \<open>CPUx86.OPCODE.JMP\<close> and \<open>CPUx86.OPCODE.JMPS\<close> come from cpux86.js, which is not part of these
  sources; the comment at lines 236-238 gives their values.
\<close>

definition OPCODE_JMP :: nat where "OPCODE_JMP = 0xE9"
definition OPCODE_JMPS :: nat where "OPCODE_JMPS = 0xEB"

text \<open>\<open>DiskImage.PCJS_OEM\<close>, the string \<open>"PCJS.ORG"\<close>, as character codes.\<close>

definition PCJS_OEM :: "nat list" where
  "PCJS_OEM = [0x50, 0x43, 0x4A, 0x53, 0x2E, 0x4F, 0x52, 0x47]"

text \<open>
  \<open>DiskImage.aDefaultBPBs\<close>, lines 3313-3505.  The nine tables differ in the bytes from \<open>0x0D\<close> on,
  which \<open>bpb\<close> takes in the order of the source: sectors per cluster, root directory entries
  (two bytes), total sectors (two bytes), media ID, sectors per FAT, sectors per track, heads,
  hidden sectors.
\<close>

definition bpb :: "nat \<Rightarrow> nat \<Rightarrow> nat \<Rightarrow> nat \<Rightarrow> nat \<Rightarrow> nat \<Rightarrow> nat \<Rightarrow> nat \<Rightarrow> nat \<Rightarrow> nat \<Rightarrow> nat list" where
  "bpb clus root0 root1 tot0 tot1 media fat trk heads hidden =
     [0xEB, 0xFE, 0x90,
      0x50, 0x43, 0x4A, 0x53, 0x2E, 0x4F, 0x52, 0x47,
      0x00, 0x02,
      clus,
      0x01, 0x00,
      0x02,
      root0, root1,
      tot0, tot1,
      media,
      fat, 0x00,
      trk, 0x00,
      heads, 0x00,
      hidden, 0x00, 0x00, 0x00]"

definition aDefaultBPBs :: "nat list list" where
  "aDefaultBPBs =
     [bpb 0x01 0x40 0x00 0x40 0x01 0xFE 0x01 0x08 0x01 0x00,
      bpb 0x02 0x70 0x00 0x80 0x02 0xFF 0x01 0x08 0x02 0x00,
      bpb 0x01 0x40 0x00 0x68 0x01 0xFC 0x02 0x09 0x01 0x00,
      bpb 0x02 0x70 0x00 0xD0 0x02 0xFD 0x02 0x09 0x02 0x00,
      bpb 0x01 0xE0 0x00 0x60 0x09 0xF9 0x07 0x0f 0x02 0x00,
      bpb 0x02 0x70 0x00 0xA0 0x05 0xF9 0x03 0x09 0x02 0x00,
      bpb 0x01 0x70 0x00 0xA0 0x05 0xF9 0x05 0x09 0x02 0x00,
      bpb 0x01 0xE0 0x00 0x40 0x0B 0xF0 0x09 0x12 0x02 0x00,
      bpb 0x08 0x00 0x02 0x03 0x51 0xF8 0x08 0x11 0x04 0x01]"

text \<open>
  \<open>DiskImage.aDefaultBPBs[i][off]\<close>.  An index \<open>i\<close> outside the table gives \<open>undefined\<close>, whose
  property access throws \<open>TypeError\<close>; an offset past the 32 stored bytes gives \<open>undefined\<close>,
  which the callers turn into \<open>0\<close> with \<open>|| 0\<close> or compare with a byte.
\<close>

definition bpb_row :: "int \<Rightarrow> js_error + nat list" where
  "bpb_row i = (if 0 \<le> i \<and> i < int (length aDefaultBPBs)
              then Inr (aDefaultBPBs ! nat i) else Inl TypeError)"

definition bpb_byte :: "nat list \<Rightarrow> nat \<Rightarrow> nat option" where
  "bpb_byte row off = (if off < length row then Some (row ! off) else None)"

text \<open>
  \<open>DiskImage.GEOMETRIES\<close>, lines 3518-3540: cylinders, heads, sectors per track, then the bytes
  per sector and the media ID where the table gives them.
\<close>

definition GEOMETRIES :: "nat \<Rightarrow> (nat \<times> nat \<times> nat \<times> nat option \<times> nat option) option" where
  "GEOMETRIES cb =
     (if cb = 163840 then Some (40, 1, 8, None, Some 0xFE)
      else if cb = 184320 then Some (40, 1, 9, None, Some 0xFC)
      else if cb = 327680 then Some (40, 2, 8, None, Some 0xFF)
      else if cb = 368640 then Some (40, 2, 9, None, Some 0xFD)
      else if cb = 737280 then Some (80, 2, 9, None, Some 0xF9)
      else if cb = 1228800 then Some (80, 2, 15, None, Some 0xF9)
      else if cb = 1474560 then Some (80, 2, 18, None, Some 0xF0)
      else if cb = 2949120 then Some (80, 2, 36, None, Some 0xF0)
      else if cb = 10653696 then Some (306, 4, 17, None, None)
      else if cb = 21411840 then Some (615, 4, 17, None, None)
      else if cb = 256256 then Some (77, 1, 26, Some 128, None)
      else if cb = 2494464 then Some (203, 2, 12, Some 512, None)
      else if cb = 5242880 then Some (256, 2, 40, Some 256, None)
      else if cb = 10485760 then Some (512, 2, 40, Some 256, None)
      else None)"


section \<open>buildDiskFromBuffer, lines 153-667\<close>

text \<open>
  The model follows the call \<open>buildDiskFromBuffer(dbDisk, hash, forceBPB)\<close>: the arguments
  \<open>sectorIDs\<close>, \<open>sectorErrors\<close> and \<open>suppData\<close> are absent, and \<open>fXDFSupport\<close>, which nothing in the
  module assigns, is unset.  \<open>printf\<close> only reports; its calls are left out.  \<open>dbDisk\<close> is
  modified in place by the source, so the model returns the buffer along with the disk.
\<close>

definition rd8 :: "DataBuffer \<Rightarrow> nat \<Rightarrow> js_error + nat" where
  "rd8 db off = ranged (readUInt8 db off)"

definition rd16 :: "DataBuffer \<Rightarrow> nat \<Rightarrow> js_error + nat" where
  "rd16 db off = ranged (readUInt16LE db off)"

definition rd32 :: "DataBuffer \<Rightarrow> nat \<Rightarrow> js_error + nat" where
  "rd32 db off = ranged (readUInt32LE db off)"

text \<open>
  Lines 179-185: the partition entries at \<open>0x1BE\<close>, \<open>0x1CE\<close>, \<open>0x1DE\<close>, \<open>0x1EE\<close>; the first whose
  status byte is at least \<open>0x80\<close> gives the offset of the boot sector (\<open>cbSector\<close> is 512 here).
\<close>

fun mbr_scan :: "DataBuffer \<Rightarrow> nat list \<Rightarrow> js_error + nat" where
  "mbr_scan db [] = Inr 0"
| "mbr_scan db (offEntry # rest) =
     (case rd8 db offEntry of
        Inl e \<Rightarrow> Inl e
      | Inr b \<Rightarrow>
          if b \<ge> 0x80 then
            (case rd32 db (offEntry + 0x08) of
               Inl e \<Rightarrow> Inl e
             | Inr vbaFirst \<Rightarrow>
                 (case rd32 db (offEntry + 0x0C) of
                    Inl e \<Rightarrow> Inl e
                  | Inr vbaTotal \<Rightarrow> Inr (vbaFirst * 512)))
          else mbr_scan db rest)"

definition find_boot_sector :: "DataBuffer \<Rightarrow> js_error + nat" where
  "find_boot_sector db =
     (if length db \<ge> 3000000 then
        bindE (rd16 db BOOT_SIG_OFFSET) (\<lambda>wSig.
          if wSig = BOOT_SIGNATURE then mbr_scan db [0x1BE, 0x1CE, 0x1DE, 0x1EE] else Inr 0)
      else Inr 0)"

text \<open>Lines 204-207: the bytes \<open>readUInt8(offBootSector + i)\<close> for \<open>i\<close> below \<open>LARGE_SECS + 4\<close>.\<close>

definition read_bytes :: "DataBuffer \<Rightarrow> nat \<Rightarrow> nat \<Rightarrow> js_error + nat list" where
  "read_bytes db off n =
     (if n = 0 \<or> off + n \<le> length db then Inr (map unat (take n (drop off db)))
      else Inl RangeError)"

text \<open>
  The local variables of the geometry resolution that later steps use.  \<open>iBPB\<close> is \<open>-1\<close> while no
  default BPB is chosen.
\<close>

record Geometry =
  g_nCylinders :: nat
  g_nHeads :: nat
  g_nSectorsPerTrack :: nat
  g_nLogicalSectorsPerTrack :: nat
  g_cbSector :: nat
  g_bMediaID :: nat
  g_fBPBExists :: bool
  g_bMediaIDBPB :: nat
  g_iBPB :: int

text \<open>
  Lines 222-316: the table lookup and the BPB test.  With a table entry the BPB values are
  only compared (and reported); without one they give the geometry, the cylinder count
  being truncated by \<open>|= 0\<close>.
\<close>

definition resolve_geometry :: "DataBuffer \<Rightarrow> nat \<Rightarrow> nat \<Rightarrow> nat \<Rightarrow> js_error + Geometry" where
  "resolve_geometry db offBootSector bByte0 cbSectorBPB =
     (let cbDiskData = length db;
          diskFormat = GEOMETRIES cbDiskData;
          g0 = (case diskFormat of
                  None \<Rightarrow>
                    \<lparr>g_nCylinders = 0, g_nHeads = 0, g_nSectorsPerTrack = 0,
                     g_nLogicalSectorsPerTrack = 0, g_cbSector = 512, g_bMediaID = 0,
                     g_fBPBExists = False, g_bMediaIDBPB = 0, g_iBPB = - 1\<rparr>
                | Some (c, h, s, cb, m) \<Rightarrow>
                    \<lparr>g_nCylinders = c, g_nHeads = h, g_nSectorsPerTrack = s,
                     g_nLogicalSectorsPerTrack = 0,
                     g_cbSector = (case cb of None \<Rightarrow> 512 | Some v \<Rightarrow> if v = 0 then 512 else v),
                     g_bMediaID = (case m of None \<Rightarrow> 0 | Some v \<Rightarrow> v),
                     g_fBPBExists = False, g_bMediaIDBPB = 0, g_iBPB = - 1\<rparr>)
      in if (bByte0 = OPCODE_JMP \<or> bByte0 = OPCODE_JMPS) \<and> cbSectorBPB = g_cbSector g0 then
           bindE (rd16 db (offBootSector + BPB_TOTAL_HEADS)) (\<lambda>nHeadsBPB.
           bindE (rd16 db (offBootSector + BPB_TRACK_SECS)) (\<lambda>nSectorsPerTrackBPB.
             if nHeadsBPB \<noteq> 0 \<and> nSectorsPerTrackBPB \<noteq> 0 then
               bindE (rd8 db (offBootSector + BPB_MEDIA_ID)) (\<lambda>bMediaIDBPB.
               bindE (rd16 db (offBootSector + BPB_TOTAL_SECS)) (\<lambda>nSectorsTotalBPB.
               bindE (rd16 db (offBootSector + BPB_HIDDEN_SECS)) (\<lambda>nSectorsHiddenBPB.
                 Inr (case diskFormat of
                        Some f \<Rightarrow> g0\<lparr>g_fBPBExists := True, g_bMediaIDBPB := bMediaIDBPB\<rparr>
                      | None \<Rightarrow>
                          g0\<lparr>g_fBPBExists := True, g_bMediaIDBPB := bMediaIDBPB,
                             g_nHeads := nHeadsBPB, g_nSectorsPerTrack := nSectorsPerTrackBPB,
                             g_nCylinders :=
                               cbDiskData div (nHeadsBPB * nSectorsPerTrackBPB * g_cbSector g0),
                             g_bMediaID := bMediaIDBPB\<rparr>))))
             else Inr g0))
         else Inr g0)"

text \<open>
  Lines 321-340: the first default BPB with the media ID and the disk size, and, when the
  disk has a BPB, the same sectors per cluster.  The rows come with their indices.
\<close>

fun find_default_BPB ::
  "DataBuffer \<Rightarrow> nat \<Rightarrow> Geometry \<Rightarrow> (nat \<times> nat list) list \<Rightarrow> js_error + int" where
  "find_default_BPB db offBootSector g [] = Inr (- 1)"
| "find_default_BPB db offBootSector g ((i, row) # rest) =
     (if bpb_byte row BPB_MEDIA_ID = Some (g_bMediaID g) then
        (let cbDiskBPB = (the (bpb_byte row BPB_TOTAL_SECS)
                          + the (bpb_byte row (BPB_TOTAL_SECS + 1)) * 0x100) * g_cbSector g
         in if cbDiskBPB = length db then
              (if \<not> g_fBPBExists g then Inr (int i)
               else (case rd8 db (offBootSector + BPB_CLUSTER_SECS) of
                       Inl e \<Rightarrow> Inl e
                     | Inr b \<Rightarrow>
                         if Some b = bpb_byte row BPB_CLUSTER_SECS then Inr (int i)
                         else find_default_BPB db offBootSector g rest))
            else find_default_BPB db offBootSector g rest)
      else find_default_BPB db offBootSector g rest)"

text \<open>
  Lines 364-385: the BPB of the disk is compared with the default one from \<open>SECTOR_BYTES\<close> up to
  the first word of \<open>HIDDEN_SECS\<close>; a difference anywhere but in \<open>TOTAL_FATS\<close> and the first byte
  of \<open>ROOT_DIRENTS\<close> sets \<open>fBPBWarning\<close>.
\<close>

fun verify_BPB :: "DataBuffer \<Rightarrow> nat \<Rightarrow> nat list \<Rightarrow> nat list \<Rightarrow> js_error + bool" where
  "verify_BPB db offBootSector row [] = Inr False"
| "verify_BPB db offBootSector row (off # offs) =
     (case rd8 db (offBootSector + off) of
        Inl e \<Rightarrow> Inl e
      | Inr bActual \<Rightarrow>
          (case verify_BPB db offBootSector row offs of
             Inl e \<Rightarrow> Inl e
           | Inr w \<Rightarrow>
               Inr (w \<or> (bpb_byte row off \<noteq> Some bActual \<and>
                          off \<noteq> BPB_TOTAL_FATS \<and> off \<noteq> BPB_ROOT_DIRENTS))))"

text \<open>
  Lines 404-406 and 417-419: \<open>writeUInt8(aDefaultBPBs[iBPB][i] || 0, offBootSector + i)\<close> for the
  offsets \<open>i\<close> of the list; and \<open>dbDisk.write(PCJS_OEM, offset, length)\<close>, which stores the
  characters that fit in the buffer.
\<close>

fun write_BPB :: "DataBuffer \<Rightarrow> nat \<Rightarrow> nat list \<Rightarrow> nat list \<Rightarrow> js_error + DataBuffer" where
  "write_BPB db offBootSector row [] = Inr db"
| "write_BPB db offBootSector row (i # is) =
     (case ranged (writeUInt8 db (case bpb_byte row i of None \<Rightarrow> 0 | Some v \<Rightarrow> v)
                     (offBootSector + i)) of
        Inl e \<Rightarrow> Inl e
      | Inr db' \<Rightarrow> write_BPB db' offBootSector row is)"

fun write_string :: "DataBuffer \<Rightarrow> nat list \<Rightarrow> nat \<Rightarrow> DataBuffer" where
  "write_string db [] off = db"
| "write_string db (ch # chs) off =
     write_string (if off < length db then db[off := of_nat ch] else db) chs (off + 1)"

text \<open>
  Lines 342-425: the choice between a physical and a smaller logical format, and the repair
  of the BPB.  The result is the geometry, the buffer and whether the BPB was marked as
  modified (only when a \<open>hash\<close> was given).
\<close>

definition reconcile_BPB ::
  "DataBuffer \<Rightarrow> nat \<Rightarrow> nat \<Rightarrow> nat \<Rightarrow> bool \<Rightarrow> bool \<Rightarrow> Geometry
     \<Rightarrow> js_error + Geometry \<times> DataBuffer \<times> bool" where
  "reconcile_BPB db offBootSector bByte0 bByte1 fHash forceBPB g =
     (let g1 = g\<lparr>g_nLogicalSectorsPerTrack := g_nSectorsPerTrack g\<rparr>
      in if g_iBPB g1 \<ge> 0 then
           bindE (if g_bMediaIDBPB g1 = 0
                  then bindE (rd8 db (offBootSector + 512)) (\<lambda>b. Inr (g1\<lparr>g_bMediaIDBPB := b\<rparr>))
                  else Inr g1) (\<lambda>g2.
           bindE (if g_iBPB g2 \<ge> 2 \<and> g_bMediaIDBPB g2 = MEDIA_320KB \<and> g_bMediaID g2 = MEDIA_360KB
                     \<or> g_bMediaIDBPB g2 = MEDIA_160KB \<and> g_bMediaID g2 = MEDIA_180KB
                  then bindE (bpb_row (g_iBPB g2 - 2)) (\<lambda>row.
                         Inr (g2\<lparr>g_iBPB := g_iBPB g2 - 2,
                                 g_bMediaID := the (bpb_byte row BPB_MEDIA_ID),
                                 g_nLogicalSectorsPerTrack := the (bpb_byte row BPB_TRACK_SECS)\<rparr>))
                  else Inr g2) (\<lambda>g3.
           bindE (bpb_row (g_iBPB g3)) (\<lambda>row.
           bindE (if g_fBPBExists g3
                  then verify_BPB db offBootSector row [BPB_SECTOR_BYTES ..< BPB_HIDDEN_SECS + 2]
                  else Inr False) (\<lambda>fBPBWarning.
             if \<not> g_fBPBExists g3 \<or> fBPBWarning then
               (if bByte0 = OPCODE_JMPS \<and> bByte1 \<ge> 0x22 \<or> forceBPB then
                  bindE (write_BPB db offBootSector row
                           [(if forceBPB then 0 else BPB_SECTOR_BYTES) ..< BPB_LARGE_SECS + 4]) (\<lambda>db'.
                    Inr (g3, db', fHash))
                else if bByte0 = 0xF6 \<and> bByte1 = 0xF6 \<and> g_bMediaIDBPB g3 > 0xF8 then
                  bindE (write_BPB db offBootSector row [0 ..< BPB_LARGE_SECS + 4]) (\<lambda>db'.
                    Inr (g3, db', False))
                else Inr (g3, db, False))
             else Inr (g3, db, False)))))
         else Inr (g1, db, False))"

text \<open>Lines 427-441: the OEM string is replaced unless it already starts with \<open>"PCJS"\<close>.\<close>

definition update_OEM ::
  "DataBuffer \<Rightarrow> nat \<Rightarrow> bool \<Rightarrow> bool \<Rightarrow> bool \<Rightarrow> js_error + DataBuffer \<times> bool" where
  "update_OEM db offBootSector fBPBExists fHash forceBPB =
     bindE (if fBPBExists
            then bindE (rd16 db (offBootSector + BOOT_SIG_OFFSET)) (\<lambda>w. Inr (w = BOOT_SIGNATURE))
            else Inr False) (\<lambda>fSig.
       if fSig \<or> forceBPB then
         bindE (ranged (readInt32BE db (BPB_OEM_STRING + offBootSector))) (\<lambda>dw.
           if dw \<noteq> 0x50434A53
           then Inr (write_string db PCJS_OEM (BPB_OEM_STRING + offBootSector), fHash)
           else Inr (db, False))
       else Inr (db, False))"


text \<open>
  Lines 443-488: the private DSK header, tried when no heads are known yet.  A track table
  follows the header when the header gives no track size; each entry holds the sectors per
  track, the bytes per sector and the offset of the track data.
\<close>

type_synonym TrackEntry = "nat \<times> nat \<times> DataBuffer"

fun read_track_table :: "DataBuffer \<Rightarrow> nat \<Rightarrow> nat \<Rightarrow> js_error + TrackEntry list" where
  "read_track_table db 0 offTrack = Inr []"
| "read_track_table db (Suc n) offTrack =
     (case rd16 db offTrack of
        Inl e \<Rightarrow> Inl e
      | Inr nSectorsPerTrack \<Rightarrow>
          (case rd16 db (offTrack + 2) of
             Inl e \<Rightarrow> Inl e
           | Inr cbSectorDSK \<Rightarrow>
               (case rd32 db (offTrack + 4) of
                  Inl e \<Rightarrow> Inl e
                | Inr offSector \<Rightarrow>
                    (case read_track_table db n (offTrack + 8) of
                       Inl e \<Rightarrow> Inl e
                     | Inr aTracks \<Rightarrow>
                         Inr ((nSectorsPerTrack, cbSectorDSK,
                               slice db offSector (offSector + nSectorsPerTrack * cbSectorDSK))
                              # aTracks)))))"

definition read_DSK_header ::
  "DataBuffer \<Rightarrow> nat \<Rightarrow> nat \<Rightarrow> Geometry \<Rightarrow> js_error + Geometry \<times> TrackEntry list" where
  "read_DSK_header db offBootSector bByte0 g =
     (if g_nHeads g = 0 \<and> bByte0 AND 0xFE = 0 then
        bindE (rd16 db (offBootSector + 0x06)) (\<lambda>cbSectorDSK.
          if cbSectorDSK AND (cbSectorDSK - 1) = 0 then
            bindE (rd8 db (offBootSector + 0x01)) (\<lambda>nHeads.
            bindE (rd16 db (offBootSector + 0x02)) (\<lambda>nCylinders.
            bindE (rd16 db (offBootSector + 0x04)) (\<lambda>nSectorsPerTrack.
              let g' = g\<lparr>g_cbSector := cbSectorDSK, g_nHeads := nHeads,
                         g_nCylinders := nCylinders, g_nSectorsPerTrack := nSectorsPerTrack,
                         g_nLogicalSectorsPerTrack := nSectorsPerTrack\<rparr>
              in if nSectorsPerTrack * cbSectorDSK = 0 then
                   bindE (read_track_table db (nHeads * nCylinders) 0x08) (\<lambda>aTracks.
                     Inr (if aTracks = [] then g'
                          else g'\<lparr>g_nSectorsPerTrack := fst (last aTracks),
                                  g_nLogicalSectorsPerTrack := fst (last aTracks)\<rparr>,
                          aTracks))
                 else Inr (g', []))))
          else Inr (g, []))
      else Inr (g, []))"

text \<open>
  The state the three nested loops of lines 502-660 carry: the disk (checksum, size and
  nominal geometry), the variables \<open>bMediaID\<close>, \<open>iTrack\<close>, \<open>nSectorsPerTrack\<close>,
  \<open>nLogicalSectorsPerTrack\<close>, \<open>cbSector\<close> and \<open>cbTrack\<close>, which a track table changes from track to
  track, and the offsets \<open>offTrack\<close> and \<open>offHead\<close>.
\<close>

record LoopState =
  ls_disk :: DiskImage
  ls_bMediaID :: nat
  ls_iTrack :: nat
  ls_nSectorsPerTrack :: nat
  ls_nLogicalSectorsPerTrack :: nat
  ls_cbSector :: nat
  ls_cbTrack :: nat
  ls_offTrack :: nat
  ls_offHead :: nat

text \<open>
  The sector loop, lines 572-656, over the \<open>n\<close> sector numbers still to visit: it stops at the
  first \<open>offSector\<close> that is not below \<open>cbTrack\<close>.  The first FAT sector is compared with the media
  ID (a read that throws on an empty slice), then the sector is built.
\<close>

fun build_sectors ::
  "nat \<Rightarrow> nat \<Rightarrow> nat \<Rightarrow> DataBuffer \<Rightarrow> nat \<Rightarrow> nat \<Rightarrow> nat \<Rightarrow> LoopState
     \<Rightarrow> js_error + Sector list \<times> LoopState" where
  "build_sectors offBootSector iCylinder iHead dbTrack 0 iSector offSector st = Inr ([], st)"
| "build_sectors offBootSector iCylinder iHead dbTrack (Suc n) iSector offSector st =
     (if offSector < ls_cbTrack st then
        (let cbSector = ls_cbSector st;
             dbSector = slice dbTrack offSector (offSector + cbSector)
         in case (if ls_bMediaID st \<noteq> 0 \<and> iCylinder = 0 \<and> iHead = 0
                     \<and> iSector = offBootSector div cbSector + 2
                  then (case rd8 dbSector 0 of
                          Inl e \<Rightarrow> Inl e
                        | Inr bFATID \<Rightarrow> Inr (st\<lparr>ls_bMediaID := 0\<rparr>))
                  else Inr st) of
              Inl e \<Rightarrow> Inl e
            | Inr st1 \<Rightarrow>
                (case buildSector (di_fWritable (ls_disk st1)) (di_dwChecksum (ls_disk st1))
                        iCylinder iHead iSector cbSector (Some dbSector) 0 of
                   Inl e \<Rightarrow> Inl e
                 | Inr (sector, dwChecksum) \<Rightarrow>
                     (let st2 = st1\<lparr>ls_disk := (ls_disk st1)
                                   \<lparr>di_dwChecksum := dwChecksum,
                                    di_cbDiskData := di_cbDiskData (ls_disk st1) + sec_l sector\<rparr>\<rparr>
                      in case build_sectors offBootSector iCylinder iHead dbTrack n
                                (iSector + 1) (offSector + cbSector) st2 of
                           Inl e \<Rightarrow> Inl e
                         | Inr (sectors, st3) \<Rightarrow> Inr (sector # sectors, st3))))
      else Inr ([], st))"

text \<open>
  The head loop, lines 508-658, over the \<open>n\<close> heads still to visit.  The array of the track has
  \<open>nLogicalSectorsPerTrack\<close> cells; those the sector loop did not reach stay unassigned.
\<close>

fun build_heads ::
  "DataBuffer \<Rightarrow> TrackEntry list \<Rightarrow> nat \<Rightarrow> nat \<Rightarrow> nat \<Rightarrow> nat \<Rightarrow> LoopState
     \<Rightarrow> js_error + Sector option list list \<times> LoopState" where
  "build_heads dbDisk aTracks offBootSector iCylinder 0 iHead st = Inr ([], st)"
| "build_heads dbDisk aTracks offBootSector iCylinder (Suc n) iHead st =
     (case (if aTracks \<noteq> [] then
              (if ls_iTrack st < length aTracks then
                 (case aTracks ! ls_iTrack st of
                    (nSectorsPerTrack, cbSector, dbTrack) \<Rightarrow>
                      Inr (dbTrack,
                           st\<lparr>ls_iTrack := ls_iTrack st + 1,
                              ls_nSectorsPerTrack := nSectorsPerTrack,
                              ls_nLogicalSectorsPerTrack := nSectorsPerTrack,
                              ls_cbSector := cbSector,
                              ls_cbTrack := nSectorsPerTrack * cbSector\<rparr>))
               else Inl TypeError)
            else Inr (slice dbDisk (ls_offTrack st + ls_offHead st)
                        (ls_offTrack st + ls_offHead st + ls_cbTrack st), st)) of
        Inl e \<Rightarrow> Inl e
      | Inr (dbTrack, st1) \<Rightarrow>
          (let st2 = st1\<lparr>ls_disk := (ls_disk st1)
                        \<lparr>di_nSectors := ls_nLogicalSectorsPerTrack st1,
                         di_cbSector := ls_cbSector st1\<rparr>\<rparr>
           in case build_sectors offBootSector iCylinder iHead dbTrack
                     (ls_nLogicalSectorsPerTrack st2) 1 0 st2 of
                Inl e \<Rightarrow> Inl e
              | Inr (sectors, st3) \<Rightarrow>
                  (let aSectors = map Some sectors
                         @ replicate (ls_nLogicalSectorsPerTrack st2 - length sectors) None;
                       st4 = st3\<lparr>ls_offHead := ls_offHead st3 + ls_cbTrack st3\<rparr>
                   in case build_heads dbDisk aTracks offBootSector iCylinder n (iHead + 1) st4 of
                        Inl e \<Rightarrow> Inl e
                      | Inr (aHeads, st5) \<Rightarrow> Inr (aSectors # aHeads, st5))))"

text \<open>The cylinder loop, lines 502-660, over the \<open>n\<close> cylinders still to visit.\<close>

fun build_cylinders ::
  "DataBuffer \<Rightarrow> TrackEntry list \<Rightarrow> nat \<Rightarrow> nat \<Rightarrow> nat \<Rightarrow> nat \<Rightarrow> LoopState
     \<Rightarrow> js_error + Sector option list list list \<times> LoopState" where
  "build_cylinders dbDisk aTracks offBootSector nHeads 0 iCylinder st = Inr ([], st)"
| "build_cylinders dbDisk aTracks offBootSector nHeads (Suc n) iCylinder st =
     (let st1 = st\<lparr>ls_disk := (ls_disk st)\<lparr>di_nHeads := nHeads\<rparr>, ls_offHead := 0\<rparr>
      in case build_heads dbDisk aTracks offBootSector iCylinder nHeads 0 st1 of
           Inl e \<Rightarrow> Inl e
         | Inr (aHeads, st2) \<Rightarrow>
             (let st3 = st2\<lparr>ls_offTrack := ls_offTrack st2 + ls_offHead st2\<rparr>
              in case build_cylinders dbDisk aTracks offBootSector nHeads n (iCylinder + 1) st3 of
                   Inl e \<Rightarrow> Inl e
                 | Inr (aCylinders, st4) \<Rightarrow> Inr (aHeads # aCylinders, st4)))"

text \<open>
  Lines 155-488 of \<open>buildDiskFromBuffer\<close>: everything before the grid is built.  The result is
  the offset of the boot sector, the geometry, the track table (empty unless a DSK header
  gave one), the buffer with its BPB as the function leaves it, and the disk.
\<close>

definition prepare_buffer ::
  "DiskImage \<Rightarrow> DataBuffer \<Rightarrow> string \<Rightarrow> bool
     \<Rightarrow> js_error + nat \<times> Geometry \<times> TrackEntry list \<times> DataBuffer \<times> DiskImage" where
  "prepare_buffer this dbDisk hash forceBPB =
     (let this0 = this\<lparr>di_aDiskData := None, di_cbDiskData := 0, di_dwChecksum := Some 0\<rparr>;
          fHash = (hash \<noteq> [])
      in bindE (find_boot_sector dbDisk) (\<lambda>offBootSector.
         bindE (rd8 dbDisk (offBootSector + BPB_JMP_OPCODE)) (\<lambda>bByte0.
         bindE (rd8 dbDisk (offBootSector + BPB_JMP_OPCODE + 1)) (\<lambda>bByte1.
         bindE (rd16 dbDisk (offBootSector + BPB_SECTOR_BYTES)) (\<lambda>cbSectorBPB.
         bindE (read_bytes dbDisk offBootSector (BPB_LARGE_SECS + 4)) (\<lambda>abBPB.
         bindE (resolve_geometry dbDisk offBootSector bByte0 cbSectorBPB) (\<lambda>g.
         bindE (if g_bMediaID g \<noteq> 0
                then find_default_BPB dbDisk offBootSector g
                       (zip [0 ..< length aDefaultBPBs] aDefaultBPBs)
                else Inr (- 1)) (\<lambda>iBPB.
         bindE (reconcile_BPB dbDisk offBootSector bByte0 bByte1 fHash forceBPB
                  (g\<lparr>g_iBPB := iBPB\<rparr>)) (\<lambda>(g1, db1, fMod1).
         bindE (update_OEM db1 offBootSector (g_fBPBExists g1) fHash forceBPB) (\<lambda>(db2, fMod2).
         bindE (read_DSK_header db2 offBootSector bByte0 g1) (\<lambda>(g2, aTracks).
           Inr (offBootSector, g2, aTracks, db2,
                this0\<lparr>di_abOrigBPB := offBootSector # abBPB,
                      di_fBPBModified := fMod1 \<or> fMod2\<rparr>))))))))))))"

text \<open>
  \<open>buildDiskFromBuffer(dbDisk, hash, forceBPB)\<close>.  The result is the value returned (\<open>true\<close> when
  the grid was built), the disk and the buffer; an exception leaves neither.
\<close>

definition buildDiskFromBuffer ::
  "DiskImage \<Rightarrow> DataBuffer \<Rightarrow> string \<Rightarrow> bool \<Rightarrow> js_error + bool \<times> DiskImage \<times> DataBuffer" where
  "buildDiskFromBuffer this dbDisk hash forceBPB =
     bindE (prepare_buffer this dbDisk hash forceBPB) (\<lambda>(offBootSector, g, aTracks, db, this1).
       if g_nHeads g \<noteq> 0 then
         (let this2 = this1\<lparr>di_aDiskData := Some [],
                             di_hash := (if hash \<noteq> [] then hash else di_hash this1),
                             di_nCylinders := g_nCylinders g\<rparr>;
              st = \<lparr>ls_disk = this2, ls_bMediaID = g_bMediaID g, ls_iTrack = 0,
                    ls_nSectorsPerTrack = g_nSectorsPerTrack g,
                    ls_nLogicalSectorsPerTrack = g_nLogicalSectorsPerTrack g,
                    ls_cbSector = g_cbSector g,
                    ls_cbTrack = g_nSectorsPerTrack g * g_cbSector g,
                    ls_offTrack = 0, ls_offHead = 0\<rparr>
          in bindE (build_cylinders db aTracks offBootSector (g_nHeads g) (g_nCylinders g) 0 st)
               (\<lambda>(aCylinders, st').
                  Inr (True, (ls_disk st')\<lparr>di_aDiskData := Some aCylinders\<rparr>, db)))
       else Inr (False, this1, db))"


section \<open>getData, lines 2728-2758\<close>

text \<open>
  The byte loop of \<open>getData\<close>, lines 2739-2743, over the \<open>n\<close> bytes of the sector still to copy.
  \<open>read\<close> gives a number; a negative one fails the assertion, and in any case cannot be
  stored as an unsigned byte.
\<close>

fun getData_bytes ::
  "bool \<Rightarrow> Sector \<Rightarrow> nat \<Rightarrow> nat \<Rightarrow> nat \<Rightarrow> DataBuffer \<Rightarrow> js_error + nat \<times> DataBuffer" where
  "getData_bytes dbg sector 0 i ib dbDisk = Inr (ib, dbDisk)"
| "getData_bytes dbg sector (Suc n) i ib dbDisk =
     (let b = read (Some sector) i
      in if assert_fails dbg (b \<ge> 0) then Inl AssertionError
         else if b < 0 then Inl RangeError
         else (case writeUInt8 dbDisk (nat b) ib of
                 None \<Rightarrow> Inl RangeError
               | Some db' \<Rightarrow> getData_bytes dbg sector n (i + 1) (ib + 1) db'))"

text \<open>The loops over the sectors of a track, the tracks of a cylinder and the cylinders.\<close>

fun getData_sectors ::
  "bool \<Rightarrow> Sector option list \<Rightarrow> nat \<Rightarrow> DataBuffer \<Rightarrow> js_error + nat \<times> DataBuffer" where
  "getData_sectors dbg [] ib dbDisk = Inr (ib, dbDisk)"
| "getData_sectors dbg (sector # sectors) ib dbDisk =
     (case sector of
        None \<Rightarrow> getData_sectors dbg sectors ib dbDisk
      | Some s \<Rightarrow>
          (case getData_bytes dbg s (sec_l s) 0 ib dbDisk of
             Inl e \<Rightarrow> Inl e
           | Inr (ib', db') \<Rightarrow> getData_sectors dbg sectors ib' db'))"

fun getData_heads ::
  "bool \<Rightarrow> Sector option list list \<Rightarrow> nat \<Rightarrow> DataBuffer \<Rightarrow> js_error + nat \<times> DataBuffer" where
  "getData_heads dbg [] ib dbDisk = Inr (ib, dbDisk)"
| "getData_heads dbg (track # tracks) ib dbDisk =
     (case getData_sectors dbg track ib dbDisk of
        Inl e \<Rightarrow> Inl e
      | Inr (ib', db') \<Rightarrow> getData_heads dbg tracks ib' db')"

fun getData_cylinders ::
  "bool \<Rightarrow> Sector option list list list \<Rightarrow> nat \<Rightarrow> DataBuffer \<Rightarrow> js_error + nat \<times> DataBuffer" where
  "getData_cylinders dbg [] ib dbDisk = Inr (ib, dbDisk)"
| "getData_cylinders dbg (cylinder # cylinders) ib dbDisk =
     (case getData_heads dbg cylinder ib dbDisk of
        Inl e \<Rightarrow> Inl e
      | Inr (ib', db') \<Rightarrow> getData_cylinders dbg cylinders ib' db')"

text \<open>
  Lines 2750-2752: the saved bytes are written back at \<open>off + i\<close>, \<open>i\<close> running over the
  offsets of the list.  A missing element of \<open>abOrigBPB\<close> is \<open>undefined\<close>, stored as \<open>0\<close>.
\<close>

fun restore_BPB :: "nat list \<Rightarrow> nat \<Rightarrow> nat list \<Rightarrow> DataBuffer \<Rightarrow> js_error + DataBuffer" where
  "restore_BPB abOrigBPB off [] dbDisk = Inr dbDisk"
| "restore_BPB abOrigBPB off (i # is) dbDisk =
     (case writeUInt8 dbDisk
             (if i - BPB_JMP_OPCODE < length abOrigBPB then abOrigBPB ! (i - BPB_JMP_OPCODE) else 0)
             (off + i) of
        None \<Rightarrow> Inl RangeError
      | Some db' \<Rightarrow> restore_BPB abOrigBPB off is db')"

text \<open>
  \<open>getData(dbDisk)\<close>.  The result is the value returned, the disk (\<open>shift\<close> removes the first
  element of \<open>abOrigBPB\<close>) and the buffer.
\<close>

definition getData ::
  "bool \<Rightarrow> DiskImage \<Rightarrow> DataBuffer \<Rightarrow> js_error + bool \<times> DiskImage \<times> DataBuffer" where
  "getData dbg this dbDisk =
     (case di_aDiskData this of
        None \<Rightarrow> Inr (False, this, dbDisk)
      | Some aDiskData \<Rightarrow>
          bindE (getData_cylinders dbg aDiskData 0 dbDisk) (\<lambda>(ib, db1).
          bindE (case di_abOrigBPB this of
                   [] \<Rightarrow> Inr (this, db1)
                 | off # abOrigBPB \<Rightarrow>
                     bindE (restore_BPB abOrigBPB off [BPB_JMP_OPCODE ..< BPB_LARGE_SECS + 4] db1)
                       (\<lambda>db2. Inr (this\<lparr>di_abOrigBPB := abOrigBPB\<rparr>, db2)))
            (\<lambda>(this', db2).
               if assert_fails dbg (ib = length dbDisk) then Inl AssertionError
               else Inr (True, this', db2))))"


subsection \<open>Notions used to state the properties of getData\<close>

text \<open>
  \<open>saved_byte abOrigBPB i\<close> is the value \<open>getData\<close> writes back for offset \<open>i\<close>: element \<open>i\<close> of the
  saved array once its first element is removed, or \<open>0\<close> when the array has no such element.
\<close>

definition saved_byte :: "nat list \<Rightarrow> nat \<Rightarrow> 8 word" where
  "saved_byte abOrigBPB i = of_nat (if i < length abOrigBPB then abOrigBPB ! i else 0)"


section \<open>Notions used to state the properties of a built disk\<close>

text \<open>
  \<open>sector_bytes s\<close> are the bytes \<open>read\<close> gives for the indices below the length of \<open>s\<close>;
  \<open>sectors_of grid\<close> are the sectors of a grid in the order \<open>getData\<close> visits them, unassigned
  cells left out; \<open>grid_bytes\<close> are the bytes of all of them.  \<open>sector_sum s\<close> is the sum over the
  checksummed words of \<open>s\<close>, and \<open>sums\<close> adds such sums up with 32-bit wrap-around.
\<close>

definition sector_bytes :: "Sector \<Rightarrow> int list" where
  "sector_bytes s = map (\<lambda>i. read (Some s) i) [0 ..< sec_l s]"

definition track_sectors :: "Sector option list \<Rightarrow> Sector list" where
  "track_sectors track = concat (map (\<lambda>s. case s of None \<Rightarrow> [] | Some x \<Rightarrow> [x]) track)"

definition sectors_of :: "Sector option list list list \<Rightarrow> Sector list" where
  "sectors_of grid = concat (map (\<lambda>cylinder. concat (map track_sectors cylinder)) grid)"

definition grid_bytes :: "Sector option list list list \<Rightarrow> int list" where
  "grid_bytes grid = concat (map sector_bytes (sectors_of grid))"

definition sector_sum :: "Sector \<Rightarrow> int32" where
  "sector_sum s = sum32 (checksum_words (sec_d s) (sec_l s div 4))"

definition sums :: "Sector list \<Rightarrow> int32" where
  "sums secs = sum32 (map sector_sum secs)"

text \<open>
  What the loops of \<open>buildDiskFromBuffer\<close> leave unchanged in their state when there is no track
  table: the geometry variables and everything of the disk but its checksum, its size and
  its nominal geometry.
\<close>

definition ls_fixed :: "LoopState \<Rightarrow> nat \<times> nat \<times> nat \<times> nat \<times> nat \<times> bool \<times> nat list \<times> bool \<times> string" where
  "ls_fixed st =
     (ls_iTrack st, ls_nSectorsPerTrack st, ls_nLogicalSectorsPerTrack st, ls_cbSector st,
      ls_cbTrack st, di_fWritable (ls_disk st), di_abOrigBPB (ls_disk st),
      di_fBPBModified (ls_disk st), di_hash (ls_disk st))"

text \<open>What the loops never change in the disk itself.\<close>

definition di_fixed :: "DiskImage \<Rightarrow> bool \<times> nat list \<times> bool \<times> string" where
  "di_fixed d = (di_fWritable d, di_abOrigBPB d, di_fBPBModified d, di_hash d)"

text \<open>
  \<open>track_data db base T m n\<close> are the first \<open>m\<close> bytes of each of \<open>n\<close> consecutive tracks of \<open>T\<close> bytes
  that start at \<open>base\<close> in the buffer.
\<close>

definition track_data :: "DataBuffer \<Rightarrow> nat \<Rightarrow> nat \<Rightarrow> nat \<Rightarrow> nat \<Rightarrow> DataBuffer" where
  "track_data db base T m n = concat (map (\<lambda>j. take m (drop (base + j * T) db)) [0 ..< n])"

text \<open>
  \<open>splice db ib xs\<close> is the buffer \<open>db\<close> with the bytes \<open>xs\<close> stored from position \<open>ib\<close> on, and
  \<open>stored_byte\<close> is the byte \<open>writeUInt8\<close> stores for a number \<open>read\<close> returned.
\<close>

definition splice :: "'a list \<Rightarrow> nat \<Rightarrow> 'a list \<Rightarrow> 'a list" where
  "splice db ib xs = take ib db @ xs @ drop (ib + length xs) db"

definition stored_byte :: "int \<Rightarrow> 8 word" where
  "stored_byte b = of_nat (nat b)"

subsection \<open>Notions used to state what buildDiskFromBuffer does to its buffer\<close>

text \<open>
  \<open>same_outside off n db db'\<close>: the buffers have the same length and the same bytes outside the
  \<open>n\<close> positions from \<open>off\<close> on.  \<open>g_physical\<close> is the physical geometry, and \<open>table_cbSector\<close> the
  sector size a row of the geometry table stands for (\<open>diskFormat[3] || cbSector\<close>).
\<close>

definition same_outside :: "nat \<Rightarrow> nat \<Rightarrow> DataBuffer \<Rightarrow> DataBuffer \<Rightarrow> bool" where
  "same_outside off n db db' \<longleftrightarrow>
     length db' = length db \<and> (\<forall>k. k < off \<or> off + n \<le> k \<longrightarrow> db' ! k = db ! k)"

definition g_physical :: "Geometry \<Rightarrow> nat \<times> nat \<times> nat \<times> nat" where
  "g_physical g = (g_nCylinders g, g_nHeads g, g_nSectorsPerTrack g, g_cbSector g)"

definition table_cbSector :: "nat option \<Rightarrow> nat" where
  "table_cbSector cb = (case cb of None \<Rightarrow> 512 | Some v \<Rightarrow> if v = 0 then 512 else v)"

subsection \<open>The round trip through a disk, and example images\<close>




definition c10_image :: DataBuffer where
  "c10_image = (replicate 163840 0)[1 := 7]"

text \<open>The disk a fresh read-only \<open>DiskImage\<close> becomes when it is built from \<open>c10_image\<close>.\<close>

definition c10_disk :: DiskImage where
  "c10_disk =
     (case buildDiskFromBuffer (new_DiskImage False) c10_image [] False of
        Inr (r, disk, db) \<Rightarrow> disk
      | Inl e \<Rightarrow> new_DiskImage False)"

section \<open>buildDiskFromPSI, lines 1386-1535\<close>

text \<open>
  A PSI file is a sequence of chunks: a big-endian 32-bit ID, a big-endian 32-bit size, the
  data and a big-endian 32-bit CRC over ID, size and data.  \<open>printf\<close> only reports and is left
  out, except where the call itself fails (see \<open>getNextChunk\<close>).
\<close>

definition rd16BE :: "DataBuffer \<Rightarrow> nat \<Rightarrow> js_error + nat" where
  "rd16BE db off = ranged (readUInt16BE db off)"

definition rd32BE :: "DataBuffer \<Rightarrow> nat \<Rightarrow> js_error + nat" where
  "rd32BE db off = ranged (readUInt32BE db off)"

definition CHUNK_PSI :: nat where "CHUNK_PSI = 0x50534920"
definition CHUNK_END :: nat where "CHUNK_END = 0x454e4420"
definition CHUNK_SECT :: nat where "CHUNK_SECT = 0x53454354"
definition CHUNK_OFFS :: nat where "CHUNK_OFFS = 0x4f464653"
definition CHUNK_IBMM :: nat where "CHUNK_IBMM = 0x49424d4d"
definition CHUNK_TEXT :: nat where "CHUNK_TEXT = 0x54455854"
definition CHUNK_DATA :: nat where "CHUNK_DATA = 0x44415441"

text \<open>
  \<open>getCRC(start, end)\<close>, lines 1408-1421, over the \<open>n\<close> bytes from \<open>i\<close> on.  \<open>crc_bits\<close> is the inner
  loop: \<open>crc & 0x80000000\<close> tests bit 31, and \<open>crc << 1\<close> stays within 32 bits.
\<close>

fun crc_bits :: "nat \<Rightarrow> int32 \<Rightarrow> int32" where
  "crc_bits 0 crc = crc"
| "crc_bits (Suc j) crc =
     crc_bits j (if crc AND 0x80000000 \<noteq> 0 then push_bit 1 crc XOR 0x1edc6f41
                 else push_bit 1 crc)"

fun getCRC :: "DataBuffer \<Rightarrow> nat \<Rightarrow> nat \<Rightarrow> int32 \<Rightarrow> js_error + int32" where
  "getCRC dbDisk i 0 crc = Inr crc"
| "getCRC dbDisk i (Suc n) crc =
     (case rd8 dbDisk i of
        Inl e \<Rightarrow> Inl e
      | Inr b \<Rightarrow> getCRC dbDisk (i + 1) n (crc_bits 8 (crc XOR push_bit 24 (of_nat b))))"

text \<open>
  The variables of \<open>buildDiskFromPSI\<close> that the chunk handlers share.  \<open>psi_sector\<close> tells where
  the variable \<open>sector\<close> points: at the sector pushed last on \<open>data[cylinder][head]\<close>, or nowhere
  while it is \<open>undefined\<close>; the \<open>DATA\<close> handler writes into that object.
\<close>

record PSIState =
  psi_data :: "Sector list list list"
  psi_aDiskData :: "Sector list list list option"
  psi_cbDiskData :: nat
  psi_chunkOffset :: nat
  psi_chunkSize :: nat
  psi_sector :: "(nat \<times> nat) option"
  psi_sectorIndex :: nat
  psi_maxIndex :: nat

text \<open>
  \<open>getNextChunk()\<close>, lines 1423-1435.  The result is the chunk ID, the chunk and the state.
  On a CRC mismatch the function calls \<open>this.printf\<close>; it is a plain function called without
  a receiver, so \<open>this\<close> is not the disk and the call throws \<open>TypeError\<close>.
\<close>

definition getNextChunk ::
  "DataBuffer \<Rightarrow> PSIState \<Rightarrow> js_error + nat \<times> DataBuffer \<times> PSIState" where
  "getNextChunk dbDisk st =
     (let chunkOffset = (if psi_chunkSize st \<noteq> 0
                         then psi_chunkOffset st + psi_chunkSize st + 12
                         else psi_chunkOffset st)
      in bindE (rd32BE dbDisk chunkOffset) (\<lambda>chunkID.
         bindE (rd32BE dbDisk (chunkOffset + 4)) (\<lambda>chunkSize.
         bindE (ranged (readInt32BE dbDisk (chunkOffset + 8 + chunkSize))) (\<lambda>chunkCRC.
         bindE (getCRC dbDisk chunkOffset (8 + chunkSize) 0) (\<lambda>myCRC.
           if chunkCRC = myCRC
           then Inr (chunkID, slice dbDisk (chunkOffset + 8) (chunkOffset + 8 + chunkSize),
                     st\<lparr>psi_chunkOffset := chunkOffset, psi_chunkSize := chunkSize\<rparr>)
           else Inl TypeError)))))"

text \<open>
  The \<open>SECT\<close> handler, lines 1451-1487.  \<open>data\<close> is extended to \<open>cylinder + 1\<close> cylinders and
  \<open>data[cylinder]\<close> to \<open>head + 1\<close> heads, the new sector is pushed on \<open>data[cylinder][head]\<close>; flag
  bit 0 stores the pattern as the first word, flag bit 2 sets \<open>dataError = -1\<close>.
\<close>

definition pad_to :: "'a list list \<Rightarrow> nat \<Rightarrow> 'a list list" where
  "pad_to xs n = xs @ replicate (n - length xs) []"

definition psi_SECT :: "DataBuffer \<Rightarrow> PSIState \<Rightarrow> js_error + PSIState" where
  "psi_SECT dbChunk st =
     bindE (rd16BE dbChunk 0) (\<lambda>cylinder.
     bindE (rd8 dbChunk 2) (\<lambda>head.
     bindE (rd8 dbChunk 3) (\<lambda>idSector.
     bindE (rd16BE dbChunk 4) (\<lambda>size.
     bindE (rd8 dbChunk 6) (\<lambda>flags.
     bindE (rd8 dbChunk 7) (\<lambda>pattern.
       let p = (of_nat pattern :: int32);
           sector = \<lparr>sec_c = cylinder, sec_h = head, sec_s = idSector, sec_l = size,
                     sec_d = (if flags AND 0x1 \<noteq> 0
                              then [p OR push_bit 8 p OR push_bit 16 p OR push_bit 24 p]
                              else []),
                     dataError = (if flags AND 0x4 \<noteq> 0 then Some (- 1) else None),
                     iModify = None, cModify = None\<rparr>;
           data1 = pad_to (psi_data st) (cylinder + 1);
           heads = pad_to (data1 ! cylinder) (head + 1);
           data2 = data1[cylinder := heads[head := heads ! head @ [sector]]]
       in Inr (st\<lparr>psi_data := data2,
                   psi_sector := Some (cylinder, head),
                   psi_sectorIndex := (if flags AND 0x1 \<noteq> 0 then 1 else 0),
                   psi_maxIndex := drop_bit 2 size,
                   psi_cbDiskData := psi_cbDiskData st + size\<rparr>)))))))"

text \<open>
  The \<open>DATA\<close> handler, lines 1489-1509: the words of the chunk are stored in the data array of
  the current sector from index 0 on (\<open>sectorIndex\<close> is reset when it is not 0).  Each word
  takes four byte reads, so a chunk whose length is not a multiple of 4 throws.  \<open>None\<close> is the
  case without a current sector, which ends the parse.
\<close>

fun psi_words :: "DataBuffer \<Rightarrow> nat \<Rightarrow> nat \<Rightarrow> js_error + int32 list" where
  "psi_words dbChunk off 0 = Inr []"
| "psi_words dbChunk off (Suc n) =
     (if off < length dbChunk then
        (case ranged (readInt32LE dbChunk off) of
           Inl e \<Rightarrow> Inl e
         | Inr w \<Rightarrow>
             (case psi_words dbChunk (off + 4) n of
                Inl e \<Rightarrow> Inl e
              | Inr ws \<Rightarrow> Inr (w # ws)))
      else Inr [])"

definition psi_DATA :: "DataBuffer \<Rightarrow> PSIState \<Rightarrow> js_error + PSIState option" where
  "psi_DATA dbChunk st =
     (case psi_sector st of
        None \<Rightarrow> Inr None
      | Some (cylinder, head) \<Rightarrow>
          bindE (psi_words dbChunk 0 (length dbChunk)) (\<lambda>ws.
            let heads = psi_data st ! cylinder;
                sectors = heads ! head;
                sector = last sectors;
                adw = ws @ drop (length ws) (sec_d sector);
                sectors' = butlast sectors @ [sector\<lparr>sec_d := adw\<rparr>]
            in Inr (Some (st\<lparr>psi_data := (psi_data st)[cylinder := heads[head := sectors']],
                            psi_sectorIndex := length ws\<rparr>))))"

text \<open>
  The loop of lines 1448-1532, with fuel: a chunk of size 0 does not advance \<open>chunkOffset\<close>, so
  the loop of the source need not end.  \<open>None\<close> means the fuel ran out.
\<close>

fun psi_loop ::
  "nat \<Rightarrow> DataBuffer \<Rightarrow> nat \<Rightarrow> PSIState \<Rightarrow> (js_error + PSIState) option" where
  "psi_loop 0 dbDisk chunkEnd st = None"
| "psi_loop (Suc n) dbDisk chunkEnd st =
     (if psi_chunkOffset st < chunkEnd then
        (case getNextChunk dbDisk st of
           Inl e \<Rightarrow> Some (Inl e)
         | Inr (chunkID, dbChunk, st1) \<Rightarrow>
             if chunkID = CHUNK_SECT then
               (case psi_SECT dbChunk st1 of
                  Inl e \<Rightarrow> Some (Inl e)
                | Inr st2 \<Rightarrow> psi_loop n dbDisk chunkEnd st2)
             else if chunkID = CHUNK_DATA then
               (case psi_DATA dbChunk st1 of
                  Inl e \<Rightarrow> Some (Inl e)
                | Inr None \<Rightarrow> Some (Inr st1)
                | Inr (Some st2) \<Rightarrow> psi_loop n dbDisk chunkEnd st2)
             else if chunkID = CHUNK_IBMM \<or> chunkID = CHUNK_OFFS \<or> chunkID = CHUNK_TEXT then
               psi_loop n dbDisk chunkEnd st1
             else if chunkID = CHUNK_END then
               Some (Inr (st1\<lparr>psi_aDiskData := Some (psi_data st1)\<rparr>))
             else Some (Inr st1))
      else Some (Inr st))"

text \<open>
  \<open>buildDiskFromPSI(dbDisk)\<close>.  The function resets \<open>aDiskData\<close>, \<open>cbDiskData\<close>, \<open>abOrigBPB\<close> and
  \<open>fBPBModified\<close>; it does not touch \<open>dwChecksum\<close>.  The result is the value returned and the disk.
\<close>

definition buildDiskFromPSI ::
  "nat \<Rightarrow> DiskImage \<Rightarrow> DataBuffer \<Rightarrow> (js_error + bool \<times> DiskImage) option" where
  "buildDiskFromPSI fuel this dbDisk =
     (let st0 = \<lparr>psi_data = [], psi_aDiskData = None, psi_cbDiskData = 0, psi_chunkOffset = 0,
                 psi_chunkSize = 0, psi_sector = None, psi_sectorIndex = 0, psi_maxIndex = 0\<rparr>
      in case getNextChunk dbDisk st0 of
           Inl e \<Rightarrow> Some (Inl e)
         | Inr (chunkID, dbChunk, st1) \<Rightarrow>
             (case bindE (rd16BE dbChunk 0) (\<lambda>fileFormat. rd16BE dbChunk 2) of
                Inl e \<Rightarrow> Some (Inl e)
              | Inr sectorFormat \<Rightarrow>
                  (case psi_loop fuel dbDisk (if chunkID \<noteq> CHUNK_PSI then 0 else length dbDisk) st1 of
                     None \<Rightarrow> None
                   | Some (Inl e) \<Rightarrow> Some (Inl e)
                   | Some (Inr st2) \<Rightarrow>
                       Some (Inr (psi_aDiskData st2 \<noteq> None,
                                  this\<lparr>di_aDiskData :=
                                          map_option (map (map (map Some))) (psi_aDiskData st2),
                                        di_cbDiskData := psi_cbDiskData st2,
                                        di_abOrigBPB := [],
                                        di_fBPBModified := False\<rparr>)))))"

text \<open>
  A PSI file of three chunks: the header, one \<open>SECT\<close> chunk for cylinder 0, head 0, sector
  ID 1, 512 bytes, flags \<open>0x05\<close> (pattern and data error) and pattern \<open>0xE5\<close>, and the \<open>END\<close> chunk.
\<close>

definition c8_stream :: DataBuffer where
  "c8_stream =
     [0x50, 0x53, 0x49, 0x20, 0x00, 0x00, 0x00, 0x04, 0x00, 0x00, 0x01, 0x00,
      0xF2, 0xED, 0xB0, 0xA5,
      0x53, 0x45, 0x43, 0x54, 0x00, 0x00, 0x00, 0x08,
      0x00, 0x00, 0x00, 0x01, 0x02, 0x00, 0x05, 0xE5,
      0xE3, 0x90, 0x22, 0x2E,
      0x45, 0x4E, 0x44, 0x20, 0x00, 0x00, 0x00, 0x00,
      0x3D, 0x64, 0xAF, 0x78]"

definition c8_sector :: Sector where
  "c8_sector = \<lparr>sec_c = 0, sec_h = 0, sec_s = 1, sec_l = 512, sec_d = [0xE5E5E5E5],
     dataError = Some (- 1), iModify = None, cModify = None\<rparr>"

text \<open>The sector the variable \<open>sector\<close> of \<open>buildDiskFromPSI\<close> points at, if any.\<close>

definition psi_current :: "PSIState \<Rightarrow> Sector option" where
  "psi_current st =
     (case psi_sector st of
        None \<Rightarrow> None
      | Some (cylinder, head) \<Rightarrow> Some (last (psi_data st ! cylinder ! head)))"

section \<open>Properties of the sector codec\<close>

subsection \<open>Bytes of a 32-bit word\<close>


lemma ff_mask: "(0xff::32 word) = mask 8" by (simp add: mask_eq_exp_minus_1)

lemma nshift_eq: "push_bit 3 ((i::nat) AND 3) = 8 * (i mod 4)"
proof -
  have "(i AND 3) = take_bit 2 i" using take_bit_eq_mask[of 2 i] by (simp add: mask_eq_exp_minus_1)
  then show ?thesis by (simp add: push_bit_eq_mult take_bit_eq_mod)
qed

lemma idw_eq: "drop_bit 2 (i::nat) = i div 4"
  by (simp add: drop_bit_eq_div)

lemma sdrop_low_byte: "n \<le> 24 \<Longrightarrow> signed_drop_bit n (w::32 word) AND 0xff = drop_bit n w AND 0xff"
  unfolding ff_mask by (rule bit_word_eqI) (auto simp add: bit_simps)

lemma uint_low_byte: "uint (drop_bit n (w::32 word) AND 0xff) = (uint w div 2 ^ n) mod 256"
proof -
  have b: "uint w mod 4294967296 = uint w" using uint_lt2p [of w] by simp
  have "uint (drop_bit n w AND mask 8) = take_bit 8 (uint (drop_bit n w))"
    by (simp add: take_bit_eq_mask uint_and uint_mask_eq)
  also have "uint (drop_bit n w) = drop_bit n (uint w)"
    by (simp add: unsigned_drop_bit_eq take_bit_eq_mod b)
  finally show ?thesis unfolding ff_mask by (simp add: take_bit_eq_mod drop_bit_eq_div)
qed

lemma read_word: "i < sec_l s \<Longrightarrow>
  read (Some s) i = uint (drop_bit (8 * (i mod 4)) (word_at s (i div 4)) AND 0xff)"
proof -
  assume l: "i < sec_l s"
  have sh: "signed_drop_bit (8 * (i mod 4)) w AND 0xff = drop_bit (8 * (i mod 4)) w AND 0xff"
    for w :: "32 word" by (rule sdrop_low_byte) simp
  show ?thesis unfolding read_def Let_def nshift_eq idw_eq word_at_def
    using l by (simp only: sh option.case if_True split: if_splits)
qed

lemma read_byte: "i < sec_l s \<Longrightarrow>
  read (Some s) i = (uint (word_at s (i div 4)) div 2 ^ (8 * (i mod 4))) mod 256"
  by (simp add: read_word uint_low_byte)

lemma read_out: "sec_l s \<le> i \<Longrightarrow> read (Some s) i = - 1"
  by (simp add: read_def)

lemma read_range: "i < sec_l s \<Longrightarrow> 0 \<le> read (Some s) i \<and> read (Some s) i < 256"
  by (simp add: read_byte)


subsection \<open>The effect of one write\<close>


lemma byte_int_ucast:
  assumes "0 \<le> b" "b < 256"
  shows "\<exists>c::8 word. b = uint c \<and> (word_of_int b :: 32 word) = ucast c"
proof -
  let ?c = "word_of_int b :: 8 word"
  have "uint ?c = b" using assms by (simp add: uint_word_of_int take_bit_eq_mod)
  then show ?thesis by (metis of_int_uint)
qed

lemma bit8: "bit (c::8 word) n \<Longrightarrow> n < 8"
  using bit_imp_le_length [of c n] by simp

lemma set_byte_same:
  fixes w :: "32 word" and c :: "8 word"
  assumes "k < 4"
  shows "drop_bit (8 * k) ((w AND NOT (push_bit (8 * k) 0xff)) OR push_bit (8 * k) (ucast c)) AND 0xff = ucast c"
  unfolding ff_mask
  apply (rule bit_word_eqI)
  subgoal for n using assms bit8 [of c n] by (auto simp add: bit_simps)
  done

lemma set_byte_other:
  fixes w :: "32 word" and c :: "8 word"
  assumes "k < 4" "k' < 4" "k' \<noteq> k"
  shows "drop_bit (8 * k') ((w AND NOT (push_bit (8 * k) 0xff)) OR push_bit (8 * k) (ucast c)) AND 0xff
       = drop_bit (8 * k') w AND 0xff"
  unfolding ff_mask
  by (rule bit_word_eqI) (use assms in \<open>auto simp add: bit_simps dest!: bit8\<close>)

lemma expand_to_nth: "j < length (expand_to adw idw) \<Longrightarrow>
  expand_to adw idw ! j = (if j < length adw then adw ! j else last_dw adw)"
  by (auto simp add: expand_to_def nth_append)

lemma expand_to_length: "length (expand_to adw idw) = max (length adw) (Suc idw)"
  by (auto simp add: expand_to_def)

lemma write_byte_data:
  assumes "i < sec_l s" "b \<noteq> read (Some s) i"
  shows "sec_d (fst (write_byte True s i b)) =
           (expand_to (sec_d s) (i div 4))[i div 4 := set_byte (word_at s (i div 4)) (i mod 4) b]"
proof -
  have "expand_to (sec_d s) (i div 4) ! (i div 4) = word_at s (i div 4)"
    by (simp add: expand_to_nth expand_to_length word_at_def)
  then show ?thesis
    using assms unfolding write_byte_def Let_def nshift_eq idw_eq
    by (simp add: expand_to_def set_byte_def split: option.splits prod.splits)
qed

lemma write_byte_result:
  assumes "i < sec_l s"
  shows "snd (write_byte True s i b) = Some True" "sec_l (fst (write_byte True s i b)) = sec_l s"
  using assms unfolding write_byte_def Let_def
  by (simp_all split: option.splits prod.splits)

lemma write_byte_length:
  assumes "i < sec_l s" "b \<noteq> read (Some s) i"
  shows "length (sec_d (fst (write_byte True s i b))) = max (length (sec_d s)) (Suc (i div 4))"
  by (simp add: write_byte_data [OF assms] expand_to_length)

lemma write_byte_word_at:
  assumes "i < sec_l s" "b \<noteq> read (Some s) i" "j < max (length (sec_d s)) (Suc (i div 4))"
  shows "word_at (fst (write_byte True s i b)) j =
           (if j = i div 4 then set_byte (word_at s j) (i mod 4) b else word_at s j)"
proof -
  have j: "j < length (expand_to (sec_d s) (i div 4))"
    using assms(3) by (simp add: expand_to_length)
  show ?thesis
    using j assms(3)
    by (simp add: word_at_def [of "fst _"] write_byte_data [OF assms(1,2)] nth_list_update
          expand_to_nth) (simp add: word_at_def expand_to_length)
qed

lemma read_set_byte:
  assumes "0 \<le> b" "b < 256" "k < 4"
  shows "uint (drop_bit (8 * k) (set_byte w k b) AND 0xff) = b"
proof -
  obtain c :: "8 word" where c: "b = uint c" "(word_of_int b :: 32 word) = ucast c"
    using byte_int_ucast [OF assms(1,2)] by blast
  show ?thesis
    unfolding set_byte_def c(2) set_byte_same [OF assms(3)]
    by (simp add: c(1) uint_up_ucast is_up)
qed

lemma read_set_byte_other:
  assumes "0 \<le> b" "b < 256" "k < 4" "k' < 4" "k' \<noteq> k"
  shows "drop_bit (8 * k') (set_byte w k b) AND 0xff = drop_bit (8 * k') w AND 0xff"
proof -
  obtain c :: "8 word" where c: "b = uint c" "(word_of_int b :: 32 word) = ucast c"
    using byte_int_ucast [OF assms(1,2)] by blast
  show ?thesis
    unfolding set_byte_def c(2) by (rule set_byte_other [OF assms(3,4,5)])
qed

lemma write_byte_read_back:
  assumes "i < sec_l s" "b \<noteq> read (Some s) i" "0 \<le> b" "b < 256"
  shows "read (Some (fst (write_byte True s i b))) i = b"
proof -
  let ?s' = "fst (write_byte True s i b)"
  have l: "i < sec_l ?s'" using assms(1) by (simp add: write_byte_result)
  have w: "word_at ?s' (i div 4) = set_byte (word_at s (i div 4)) (i mod 4) b"
    using write_byte_word_at [OF assms(1,2), of "i div 4"] by simp
  show ?thesis
    unfolding read_word [OF l] w by (rule read_set_byte [OF assms(3,4)]) simp
qed

lemma write_byte_same_word:
  assumes "i < sec_l s" "b \<noteq> read (Some s) i" "0 \<le> b" "b < 256"
    and "j < sec_l s" "j div 4 = i div 4" "j \<noteq> i"
  shows "read (Some (fst (write_byte True s i b))) j = read (Some s) j"
proof -
  let ?s' = "fst (write_byte True s i b)"
  have l: "j < sec_l ?s'" using assms(1,5) by (simp add: write_byte_result)
  have w: "word_at ?s' (j div 4) = set_byte (word_at s (j div 4)) (i mod 4) b"
    using write_byte_word_at [OF assms(1,2), of "i div 4"] assms(6) by simp
  have ne: "j mod 4 \<noteq> i mod 4" using assms(6,7) by (metis div_mult_mod_eq)
  show ?thesis
    unfolding read_word [OF l] read_word [OF assms(5)] w
    by (simp add: read_set_byte_other [OF assms(3,4) _ _ ne])
qed

lemma write_byte_before:
  assumes "i < sec_l s" "b \<noteq> read (Some s) i" "j < sec_l s" "j div 4 < i div 4"
  shows "read (Some (fst (write_byte True s i b))) j = read (Some s) j"
proof -
  let ?s' = "fst (write_byte True s i b)"
  have l: "j < sec_l ?s'" using assms(1,3) by (simp add: write_byte_result)
  have w: "word_at ?s' (j div 4) = word_at s (j div 4)"
    using write_byte_word_at [OF assms(1,2), of "j div 4"] assms(4) by simp
  show ?thesis unfolding read_word [OF l] read_word [OF assms(3)] w ..
qed

lemma write_byte_unchanged:
  assumes "\<not> (i < sec_l s \<and> b \<noteq> read (Some s) i)"
  shows "fst (write_byte True s i b) = s"
  using assms unfolding write_byte_def by auto

lemma write_byte_covers:
  assumes "i < sec_l s" "b \<noteq> read (Some s) i" "covers s T"
  shows "covers (fst (write_byte True s i b)) (T @ [i div 4])"
proof (cases "T = []")
  case True
  then show ?thesis using assms unfolding covers_def write_byte_def Let_def idw_eq
    by (auto split: option.splits prod.splits)
next
  case False
  then have im: "iModify s = Some (Min (set T))" and cm: "cModify s = Some (Max (set T) - Min (set T) + 1)"
    using assms(3) by (simp_all add: covers_def)
  have le: "Min (set T) \<le> Max (set T)" using False by simp
  have mn: "Min (set (T @ [i div 4])) = min (i div 4) (Min (set T))"
    using False by (simp add: Min_insert)
  have mx: "Max (set (T @ [i div 4])) = max (i div 4) (Max (set T))"
    using False by (simp add: Max_insert)
  show ?thesis
    using assms(1,2) le unfolding covers_def mn mx write_byte_def Let_def idw_eq im cm
    by (auto simp add: min_def max_def split: prod.splits)
qed

lemma writes_covers:
  "covers s T \<Longrightarrow> covers (writes True s ws) (T @ modified s ws)"
proof (induction ws arbitrary: s T)
  case Nil
  then show ?case by simp
next
  case (Cons w ws)
  obtain i b where w: "w = (i, b)" by (cases w)
  show ?case
  proof (cases "i < sec_l s \<and> b \<noteq> read (Some s) i")
    case True
    then have "covers (fst (write_byte True s i b)) (T @ [i div 4])"
      using write_byte_covers Cons.prems by blast
    from Cons.IH [OF this] show ?thesis using True by (simp add: w idw_eq)
  next
    case False
    then have u: "fst (write_byte True s i b) = s" by (rule write_byte_unchanged)
    have m: "modified s (w # ws) = modified s ws"
      unfolding w modified.simps u using False by (simp only: if_False)
    have r: "writes True s (w # ws) = writes True s ws"
      unfolding w writes.simps u ..
    show ?thesis unfolding m r by (rule Cons.IH [OF Cons.prems])
  qed
qed


subsection \<open>Claims about read and write\<close>

text \<open>
  Claim C2.  For every sector and every byte index \<open>i\<close>, \<open>read\<close> returns \<open>-1\<close> when \<open>i\<close> is at or
  past the sector's length; otherwise it returns the unsigned byte found by taking the data
  word at index \<open>i div 4\<close>, or the last stored word when that index is at or past the end of the
  stored array, shifting it right by \<open>(i mod 4) * 8\<close> bits and keeping the low 8 bits.  The
  shift of the source is the sign-propagating \<open>>>\<close>; the theorem shows that the byte is the
  unsigned one all the same.  (On a sector whose stored array is empty there is no last word;
  the source then returns \<open>0\<close>.)
\<close>

theorem read_returns_byte:
  "(sec_l s \<le> i \<longrightarrow> read (Some s) i = - 1) \<and>
   (i < sec_l s \<and> i div 4 < length (sec_d s) \<longrightarrow>
      read (Some s) i = (uint (sec_d s ! (i div 4)) div 2 ^ ((i mod 4) * 8)) mod 256) \<and>
   (i < sec_l s \<and> length (sec_d s) \<le> i div 4 \<and> sec_d s \<noteq> [] \<longrightarrow>
      read (Some s) i = (uint (last (sec_d s)) div 2 ^ ((i mod 4) * 8)) mod 256) \<and>
   (i < sec_l s \<and> sec_d s = [] \<longrightarrow> read (Some s) i = 0) \<and>
   (i < sec_l s \<longrightarrow> 0 \<le> read (Some s) i \<and> read (Some s) i \<le> 255)"
proof (intro conjI impI)
  assume "sec_l s \<le> i"
  then show "read (Some s) i = - 1" by (rule read_out)
next
  assume "i < sec_l s \<and> i div 4 < length (sec_d s)"
  then show "read (Some s) i = (uint (sec_d s ! (i div 4)) div 2 ^ ((i mod 4) * 8)) mod 256"
    by (simp add: read_byte word_at_def mult.commute)
next
  assume "i < sec_l s \<and> length (sec_d s) \<le> i div 4 \<and> sec_d s \<noteq> []"
  then show "read (Some s) i = (uint (last (sec_d s)) div 2 ^ ((i mod 4) * 8)) mod 256"
    by (simp add: read_byte word_at_def last_dw_def mult.commute)
next
  assume "i < sec_l s \<and> sec_d s = []"
  then show "read (Some s) i = 0"
    by (simp add: read_byte word_at_def last_dw_def)
next
  assume "i < sec_l s"
  then show "0 \<le> read (Some s) i" by (simp add: read_byte)
next
  assume "i < sec_l s"
  then have "read (Some s) i < 256" by (simp add: read_byte)
  then show "read (Some s) i \<le> 255" by simp
qed

theorem read_returns_byte_witness:
  "read (Some c2_sector) 512 = - 1 \<and> read (Some c2_sector) 5 = 0x66 \<and>
   read (Some c2_sector) 9 = 0x66 \<and> read (Some c2_sector) 7 = 0x88"
proof -
  have a: "sec_l c2_sector \<le> 512" by (simp add: c2_sector_def)
  have b: "5 < sec_l c2_sector \<and> 5 div 4 < length (sec_d c2_sector)" by (simp add: c2_sector_def)
  have c: "9 < sec_l c2_sector \<and> length (sec_d c2_sector) \<le> 9 div 4 \<and> sec_d c2_sector \<noteq> []"
    by (simp add: c2_sector_def)
  have d: "7 < sec_l c2_sector \<and> 7 div 4 < length (sec_d c2_sector)" by (simp add: c2_sector_def)
  have "read (Some c2_sector) 512 = - 1"
    using read_returns_byte [of c2_sector 512] a by blast
  moreover have "read (Some c2_sector) 5 = (uint (sec_d c2_sector ! (5 div 4)) div 2 ^ ((5 mod 4) * 8)) mod 256"
    using read_returns_byte [of c2_sector 5] b by blast
  moreover have "read (Some c2_sector) 9 = (uint (last (sec_d c2_sector)) div 2 ^ ((9 mod 4) * 8)) mod 256"
    using read_returns_byte [of c2_sector 9] c by blast
  moreover have "read (Some c2_sector) 7 = (uint (sec_d c2_sector ! (7 div 4)) div 2 ^ ((7 mod 4) * 8)) mod 256"
    using read_returns_byte [of c2_sector 7] d by blast
  ultimately show ?thesis by (simp add: c2_sector_def)
qed

text \<open>
  Claim C6.  On a writable disk, writing a byte that differs from the current byte expands
  the stored array up to the target word with the repeat pattern, updates that word, and
  keeps \<open>iModify\<close> and \<open>cModify\<close> as the smallest contiguous range of word indices that covers
  all modifications so far.  The code does not keep the last part.  The all-zero 512-byte
  sector of a writable disk is stored as the single word \<open>0\<close>.  Writing \<open>0x41\<close> at offset 100
  fills words 1 to 24 with the pattern \<open>0\<close>, stores \<open>0x41\<close> in word 25 and records \<open>iModify = 25\<close>,
  \<open>cModify = 1\<close>, as the claim says.  But word 25 is now the last stored word, so it has become
  the repeat pattern of words 26 to 127: bytes 104 and 508, which were \<open>0\<close>, read \<open>0x41\<close>
  although nothing wrote them and the recorded range holds word 25 only.  The second write of
  the scenario, \<open>0x42\<close> at offset 50, then gives \<open>iModify = 12\<close> and \<open>cModify = 14\<close>.
\<close>

theorem write_changes_later_words:
  "buildSector True (Some 0) 0 0 1 512 (Some (replicate 512 0)) 0 = Inr (zero_sector, Some 0) \<and>
   write_byte True zero_sector 100 0x41 =
     (zero_sector\<lparr>sec_d := replicate 25 0 @ [0x41], iModify := Some 25, cModify := Some 1\<rparr>,
      Some True) \<and>
   read (Some zero_sector) 100 = 0 \<and>
   read (Some zero_sector) 104 = 0 \<and>
   read (Some zero_sector) 508 = 0 \<and>
   read (Some (fst (write_byte True zero_sector 100 0x41))) 100 = 0x41 \<and>
   read (Some (fst (write_byte True zero_sector 100 0x41))) 104 = 0x41 \<and>
   read (Some (fst (write_byte True zero_sector 100 0x41))) 508 = 0x41 \<and>
   map (\<lambda>i. read (Some (fst (write_byte True zero_sector 100 0x41))) i) [96 ..< 112] =
     [0, 0, 0, 0, 0x41, 0, 0, 0, 0x41, 0, 0, 0, 0x41, 0, 0, 0] \<and>
   writes True zero_sector [(100, 0x41), (50, 0x42)] =
     zero_sector\<lparr>sec_d := replicate 12 0 @ [0x00420000] @ replicate 12 0 @ [0x41],
                   iModify := Some 12, cModify := Some 14\<rparr>"
proof -
  have a: "buildSector True (Some 0) 0 0 1 512 (Some (replicate 512 0)) 0 = Inr (zero_sector, Some 0)"
    by code_simp
  have b: "write_byte True zero_sector 100 0x41 =
     (zero_sector\<lparr>sec_d := replicate 25 0 @ [0x41], iModify := Some 25, cModify := Some 1\<rparr>,
      Some True)"
    by code_simp
  have c: "read (Some zero_sector) 100 = 0 \<and> read (Some zero_sector) 104 = 0 \<and>
           read (Some zero_sector) 508 = 0"
    by code_simp
  have d: "read (Some (fst (write_byte True zero_sector 100 0x41))) 100 = 0x41 \<and>
           read (Some (fst (write_byte True zero_sector 100 0x41))) 104 = 0x41 \<and>
           read (Some (fst (write_byte True zero_sector 100 0x41))) 508 = 0x41"
    by code_simp
  have e: "map (\<lambda>i. read (Some (fst (write_byte True zero_sector 100 0x41))) i) [96 ..< 112] =
     [0, 0, 0, 0, 0x41, 0, 0, 0, 0x41, 0, 0, 0, 0x41, 0, 0, 0]"
    by code_simp
  have f: "writes True zero_sector [(100, 0x41), (50, 0x42)] =
     zero_sector\<lparr>sec_d := replicate 12 0 @ [0x00420000] @ replicate 12 0 @ [0x41],
                   iModify := Some 12, cModify := Some 14\<rparr>"
    by code_simp
  from a b c d e f show ?thesis by blast
qed

section \<open>Properties of sector building\<close>

subsection \<open>The scan of initSector\<close>


lemma last_dw_snoc [simp]: "last_dw (xs @ [x]) = x"
  by (simp add: last_dw_def)

lemma scan_fill_snoc: "scan_fill (adw @ [scan_fill adw pat]) pat = scan_fill adw pat"
  by (simp add: scan_fill_def split: option.splits)

lemma expand_words_snoc:
  "length adw < cdw \<Longrightarrow>
   expand_words (adw @ [scan_fill adw pat]) cdw pat = expand_words adw cdw pat"
proof -
  assume l: "length adw < cdw"
  have r: "replicate (cdw - length adw) f = f # replicate (cdw - Suc (length adw)) f" for f :: int32
    unfolding Suc_diff_Suc [OF l, symmetric] by simp
  show ?thesis
    unfolding expand_words_def scan_fill_snoc r by simp
qed

lemma expand_words_long: "cdw \<le> length adw \<Longrightarrow> expand_words adw cdw pat = adw"
  by (simp add: expand_words_def)

lemma same_tail_start: "same_tail xs (Suc n) 0"
  unfolding same_tail_def
proof (intro conjI allI impI)
  show "0 < Suc n" by simp
next
  fix k assume "Suc n - 1 - 0 \<le> k \<and> k < Suc n"
  then have "k = n" by arith
  then show "xs ! k = xs ! (Suc n - 1)" by simp
qed

lemma same_tail_step:
  assumes "same_tail xs n c" "0 < n" "xs ! n = xs ! (n - 1)"
  shows "same_tail xs (Suc n) (Suc c)"
  unfolding same_tail_def
proof (intro conjI allI impI)
  show "Suc c < Suc n" using assms(1) by (simp add: same_tail_def)
next
  fix k assume k: "Suc n - 1 - Suc c \<le> k \<and> k < Suc n"
  show "xs ! k = xs ! (Suc n - 1)"
  proof (cases "k = n")
    case True
    then show ?thesis by simp
  next
    case False
    with k have "n - 1 - c \<le> k \<and> k < n" by arith
    with assms(1) have "xs ! k = xs ! (n - 1)" unfolding same_tail_def by blast
    with assms(3) show ?thesis by simp
  qed
qed

lemma same_tail_snoc:
  assumes "same_tail xs n c" "n \<le> length xs"
  shows "same_tail (xs @ [x]) n c"
  unfolding same_tail_def
proof (intro conjI allI impI)
  show "c < n" using assms(1) by (simp add: same_tail_def)
next
  fix k assume k: "n - 1 - c \<le> k \<and> k < n"
  with assms(1) have e: "xs ! k = xs ! (n - 1)" unfolding same_tail_def by blast
  from k assms(2) have "k < length xs" "n - 1 < length xs" by arith+
  then show "(xs @ [x]) ! k = (xs @ [x]) ! (n - 1)" using e by (simp add: nth_append)
qed

lemma scan_done: "\<not> idw < cdw \<Longrightarrow> initSector_scan adw cdw pat idw p c = (adw, c)"
  by (subst initSector_scan.simps) simp

lemma scan_stored_same:
  "idw < cdw \<Longrightarrow> idw < length adw \<Longrightarrow> p = Some (adw ! idw) \<Longrightarrow>
   initSector_scan adw cdw pat idw p c = initSector_scan adw cdw pat (Suc idw) p (Suc c)"
  by (subst initSector_scan.simps) simp

lemma scan_stored_new:
  "idw < cdw \<Longrightarrow> idw < length adw \<Longrightarrow> p \<noteq> Some (adw ! idw) \<Longrightarrow>
   initSector_scan adw cdw pat idw p c = initSector_scan adw cdw pat (Suc idw) (Some (adw ! idw)) 0"
  by (subst initSector_scan.simps) simp

lemma scan_fill_same:
  "idw < cdw \<Longrightarrow> idw = length adw \<Longrightarrow> p = Some (scan_fill adw pat) \<Longrightarrow>
   initSector_scan adw cdw pat idw p c =
   initSector_scan (adw @ [scan_fill adw pat]) cdw pat (Suc idw) p (Suc c)"
  by (subst initSector_scan.simps) (simp add: Let_def js_set_def scan_fill_def)

lemma scan_fill_new:
  "idw < cdw \<Longrightarrow> idw = length adw \<Longrightarrow> p \<noteq> Some (scan_fill adw pat) \<Longrightarrow>
   initSector_scan adw cdw pat idw p c =
   initSector_scan (adw @ [scan_fill adw pat]) cdw pat (Suc idw) (Some (scan_fill adw pat)) 0"
  by (subst initSector_scan.simps) (simp add: Let_def js_set_def scan_fill_def)

lemma initSector_scan_inv:
  "idw \<le> length adw \<Longrightarrow> idw \<le> cdw \<Longrightarrow> scan_ok adw idw dwPrev cPrev \<Longrightarrow>
   scan_post adw cdw pat (initSector_scan adw cdw pat idw dwPrev cPrev)"
proof (induction "cdw - idw" arbitrary: adw idw dwPrev cPrev)
  case 0
  from "0.hyps" "0.prems"(2) have e: "idw = cdw" by simp
  have ex: "expand_words adw cdw pat = adw"
    using "0.prems"(1) e by (simp add: expand_words_long)
  have d: "initSector_scan adw cdw pat idw dwPrev cPrev = (adw, cPrev)"
    by (rule scan_done) (simp add: e)
  show ?case
    unfolding d scan_post_def ex fst_conv snd_conv
    using "0.prems"(3) unfolding scan_ok_def e by auto
next
  case (Suc n)
  from Suc.hyps(2) have lt: "idw < cdw" and n: "n = cdw - Suc idw" and le: "Suc idw \<le> cdw"
    by simp_all
  show ?case
  proof (cases "idw < length adw")
    case inl: True
    then have l': "Suc idw \<le> length adw" by simp
    show ?thesis
    proof (cases "dwPrev = Some (adw ! idw)")
      case True
      then have pos: "0 < idw" and st: "same_tail adw idw cPrev" and pv: "adw ! idw = adw ! (idw - 1)"
        using Suc.prems(3) unfolding scan_ok_def by auto
      have "scan_ok adw (Suc idw) dwPrev (Suc cPrev)"
        unfolding scan_ok_def using same_tail_step [OF st pos pv] True by simp
      from Suc.hyps(1) [OF n l' le this] show ?thesis
        unfolding scan_stored_same [OF lt inl True] .
    next
      case False
      have "scan_ok adw (Suc idw) (Some (adw ! idw)) 0"
        unfolding scan_ok_def by (simp add: same_tail_start)
      from Suc.hyps(1) [OF n l' le this] show ?thesis
        unfolding scan_stored_new [OF lt inl False] .
    qed
  next
    case False
    with Suc.prems(1) have len: "idw = length adw" by simp
    let ?dw = "scan_fill adw pat"
    let ?adw = "adw @ [?dw]"
    have ex: "expand_words ?adw cdw pat = expand_words adw cdw pat"
      using lt len by (simp add: expand_words_snoc)
    have l': "Suc idw \<le> length ?adw" by (simp add: len)
    have post: "scan_post ?adw cdw pat r \<Longrightarrow> scan_post adw cdw pat r" for r
      unfolding scan_post_def ex .
    show ?thesis
    proof (cases "dwPrev = Some ?dw")
      case True
      then have pos: "0 < idw" and st: "same_tail adw idw cPrev" and pv: "?dw = adw ! (idw - 1)"
        using Suc.prems(3) unfolding scan_ok_def by auto
      have st': "same_tail ?adw idw cPrev"
        by (rule same_tail_snoc [OF st]) (simp add: len)
      have "?adw ! idw = ?adw ! (idw - 1)"
        using pos pv by (simp add: len nth_append)
      from same_tail_step [OF st' pos this]
      have "scan_ok ?adw (Suc idw) dwPrev (Suc cPrev)"
        unfolding scan_ok_def using True by (simp add: len)
      from post [OF Suc.hyps(1) [OF n l' le this]] show ?thesis
        unfolding scan_fill_same [OF lt len True] .
    next
      case False
      have "scan_ok ?adw (Suc idw) (Some ?dw) 0"
        unfolding scan_ok_def by (simp add: same_tail_start len)
      from post [OF Suc.hyps(1) [OF n l' le this]] show ?thesis
        unfolding scan_fill_new [OF lt len False] .
    qed
  qed
qed


subsection \<open>The array initSector stores\<close>


lemma scan_from_start:
  "scan_post adw cdw pat (initSector_scan adw cdw pat 0 None 0)"
  by (rule initSector_scan_inv) (simp_all add: scan_ok_def)

lemma expand_words_length: "length (expand_words adw cdw pat) = max (length adw) cdw"
  by (simp add: expand_words_def)

lemma scan_result:
  obtains c where "initSector_scan adw cdw pat 0 None 0 = (expand_words adw cdw pat, c)"
    and "0 < cdw \<longrightarrow> same_tail (expand_words adw cdw pat) cdw c"
proof -
  obtain x c where r: "initSector_scan adw cdw pat 0 None 0 = (x, c)"
    by (cases "initSector_scan adw cdw pat 0 None 0")
  from scan_from_start [of adw cdw pat]
  have "x = expand_words adw cdw pat" and "0 < cdw \<longrightarrow> same_tail x cdw c"
    unfolding scan_post_def r by auto
  with r that show ?thesis by blast
qed

lemma compress_eq:
  "compress adw cdw pat =
     take (length (expand_words adw cdw pat) - snd (initSector_scan adw cdw pat 0 None 0))
       (expand_words adw cdw pat)"
proof -
  obtain c where r: "initSector_scan adw cdw pat 0 None 0 = (expand_words adw cdw pat, c)"
    by (rule scan_result)
  show ?thesis unfolding compress_def r by simp
qed

lemma scan_same_tail:
  "0 < cdw \<Longrightarrow>
   same_tail (expand_words adw cdw pat) cdw (snd (initSector_scan adw cdw pat 0 None 0))"
proof -
  assume p: "0 < cdw"
  obtain c where r: "initSector_scan adw cdw pat 0 None 0 = (expand_words adw cdw pat, c)"
    and t: "0 < cdw \<longrightarrow> same_tail (expand_words adw cdw pat) cdw c"
    by (rule scan_result)
  show ?thesis unfolding r using t p by simp
qed

lemma compress_length_le:
  assumes "length adw \<le> cdw"
  shows "length (compress adw cdw pat) \<le> cdw"
  using assms by (simp add: compress_eq expand_words_length)

lemma compress_nonempty:
  assumes "0 < cdw"
  shows "compress adw cdw pat \<noteq> []"
proof -
  have "same_tail (expand_words adw cdw pat) cdw (snd (initSector_scan adw cdw pat 0 None 0))"
    by (rule scan_same_tail [OF assms])
  then have "snd (initSector_scan adw cdw pat 0 None 0) < cdw" by (simp add: same_tail_def)
  then have "0 < length (compress adw cdw pat)"
    by (simp add: compress_eq expand_words_length)
  then show ?thesis by auto
qed

lemma compress_word:
  assumes "j < cdw"
  shows "(if j < length (compress adw cdw pat) then compress adw cdw pat ! j
          else last_dw (compress adw cdw pat)) = expand_words adw cdw pat ! j"
proof -
  let ?E = "expand_words adw cdw pat"
  let ?c = "snd (initSector_scan adw cdw pat 0 None 0)"
  have pos: "0 < cdw" using assms by simp
  have st: "same_tail ?E cdw ?c"
    by (rule scan_same_tail [OF pos])
  then have c: "?c < cdw" by (simp add: same_tail_def)
  have n: "cdw \<le> length ?E" by (simp add: expand_words_length)
  have len: "length (compress adw cdw pat) = length ?E - ?c"
    by (simp add: compress_eq)
  show ?thesis
  proof (cases "j < length ?E - ?c")
    case True
    then show ?thesis by (simp add: len) (simp add: compress_eq)
  next
    case False
    have ne: "compress adw cdw pat \<noteq> []" by (rule compress_nonempty [OF pos])
    have k: "length ?E - ?c - 1 < length ?E - ?c" using c n by arith
    have "last (compress adw cdw pat) = ?E ! (length ?E - ?c - 1)"
      using ne k by (simp add: last_conv_nth len) (simp add: compress_eq)
    moreover have "?E ! (length ?E - ?c - 1) = ?E ! (cdw - 1)"
    proof -
      have "cdw - 1 - ?c \<le> length ?E - ?c - 1 \<and> length ?E - ?c - 1 < cdw"
        using False assms c n by arith
      with st show ?thesis unfolding same_tail_def by blast
    qed
    moreover have "?E ! j = ?E ! (cdw - 1)"
    proof -
      have "cdw - 1 - ?c \<le> j \<and> j < cdw" using False assms c n by arith
      with st show ?thesis unfolding same_tail_def by blast
    qed
    ultimately show ?thesis using False ne by (simp add: len last_dw_def)
  qed
qed

lemma initSector_fields:
  "sec_d (fst (initSector fW chk sector adw cb pat)) = compress adw (cb div 4) pat"
  "sec_l (fst (initSector fW chk sector adw cb pat)) = sec_l sector"
  "snd (initSector fW chk sector adw cb pat) =
     Some (case chk of None \<Rightarrow> 0
           | Some c \<Rightarrow> c + sum32 (checksum_words (compress adw (cb div 4) pat) (cb div 4)))"
proof -
  obtain c where r: "initSector_scan adw (cb div 4) pat 0 None 0 = (expand_words adw (cb div 4) pat, c)"
    by (rule scan_result)
  have drop_bit_eq_div: "drop_bit 2 cb = cb div 4" by (simp add: drop_bit_eq_div)
  show "sec_d (fst (initSector fW chk sector adw cb pat)) = compress adw (cb div 4) pat"
    unfolding initSector_def compress_def Let_def drop_bit_eq_div r by simp
  show "sec_l (fst (initSector fW chk sector adw cb pat)) = sec_l sector"
    unfolding initSector_def Let_def drop_bit_eq_div r by simp
  show "snd (initSector fW chk sector adw cb pat) =
     Some (case chk of None \<Rightarrow> 0
           | Some c \<Rightarrow> c + sum32 (checksum_words (compress adw (cb div 4) pat) (cb div 4)))"
    unfolding initSector_def compress_def Let_def drop_bit_eq_div r
    by (simp split: option.splits)
qed


subsection \<open>The words buildSector reads\<close>


lemma bit_le32:
  fixes b0 b1 b2 b3 :: "8 word"
  shows "bit (le32 b0 b1 b2 b3) n \<longleftrightarrow>
           (n < 8 \<and> bit b0 n) \<or> (8 \<le> n \<and> n < 16 \<and> bit b1 (n - 8)) \<or>
           (16 \<le> n \<and> n < 24 \<and> bit b2 (n - 16)) \<or> (24 \<le> n \<and> n < 32 \<and> bit b3 (n - 24))"
  using bit8 [of b0 n] bit8 [of b1 "n - 8"] bit8 [of b2 "n - 16"] bit8 [of b3 "n - 24"]
  unfolding le32_def by (auto simp add: bit_simps)

lemma le32_byte:
  fixes b0 b1 b2 b3 :: "8 word"
  shows "drop_bit 0 (le32 b0 b1 b2 b3) AND 0xff = ucast b0"
    "drop_bit 8 (le32 b0 b1 b2 b3) AND 0xff = ucast b1"
    "drop_bit 16 (le32 b0 b1 b2 b3) AND 0xff = ucast b2"
    "drop_bit 24 (le32 b0 b1 b2 b3) AND 0xff = ucast b3"
  unfolding ff_mask
  by (rule bit_word_eqI, auto simp add: bit_simps bit_le32 dest: bit8)+

lemma uint_ucast8: "uint (ucast (b::8 word) :: 32 word) = uint b"
  by (simp add: uint_up_ucast is_up)

lemma le32_byte_uint:
  fixes b0 b1 b2 b3 :: "8 word"
  assumes "k < 4"
  shows "uint (drop_bit (8 * k) (le32 b0 b1 b2 b3) AND 0xff) = uint ([b0, b1, b2, b3] ! k)"
proof -
  from assms consider "k = 0" | "k = 1" | "k = 2" | "k = 3" by arith
  then show ?thesis
    by cases (simp_all add: le32_byte [simplified] le32_byte uint_ucast8)
qed

lemma buildSector_words_ok:
  "buildSector_words db n ib = Inr adw \<Longrightarrow>
   length adw = n \<and> (\<forall>j<n. adw ! j = buffer_word db ib j)"
proof (induction n arbitrary: ib adw)
  case 0
  then show ?case by simp
next
  case (Suc n)
  from Suc.prems obtain dw rest where
    dw: "(case db of None \<Rightarrow> Inr 0
          | Some buf \<Rightarrow> if ib < length buf
              then (case readInt32LE buf ib of None \<Rightarrow> Inl RangeError | Some dw \<Rightarrow> Inr dw)
              else Inr 0) = Inr dw"
    and rest: "buildSector_words db n (ib + 4) = Inr rest" and adw: "adw = dw # rest"
    by (auto split: sum.splits)
  from Suc.IH [OF rest] have l: "length rest = n" and w: "\<forall>j<n. rest ! j = buffer_word db (ib + 4) j"
    by simp_all
  have w0: "dw = buffer_word db ib 0"
    using dw by (auto simp add: buffer_word_def readInt32LE_def split: option.splits if_splits)
  have sh: "buffer_word db (ib + 4) j = buffer_word db ib (Suc j)" for j
    by (simp add: buffer_word_def add.assoc add.commute add.left_commute split: option.splits)
  show ?case
  proof (intro conjI allI impI)
    show "length adw = Suc n" by (simp add: adw l)
  next
    fix j assume "j < Suc n"
    then show "adw ! j = buffer_word db ib j"
      using w w0 by (cases j) (simp_all add: adw sh)
  qed
qed

lemma buildSector_words_range:
  "buildSector_words (Some buf) n ib = Inr adw \<Longrightarrow> j < n \<Longrightarrow> ib + 4 * j < length buf \<Longrightarrow>
   ib + 4 * j + 4 \<le> length buf"
proof (induction n arbitrary: ib adw j)
  case 0
  then show ?case by simp
next
  case (Suc n)
  from Suc.prems(1) obtain dw rest where
    dw: "(if ib < length buf
              then (case readInt32LE buf ib of None \<Rightarrow> Inl RangeError | Some dw \<Rightarrow> Inr dw)
              else Inr 0) = Inr dw"
    and rest: "buildSector_words (Some buf) n (ib + 4) = Inr rest"
    by (auto split: sum.splits)
  show ?case
  proof (cases j)
    case 0
    with Suc.prems(3) dw show ?thesis
      by (auto simp add: readInt32LE_def split: option.splits if_splits)
  next
    case (Suc j')
    with Suc.prems have "j' < n" "ib + 4 + 4 * j' < length buf" by simp_all
    from Suc.IH [OF rest this] show ?thesis by (simp add: Suc)
  qed
qed


subsection \<open>The sector buildSector and rebuildSector return\<close>


lemma buildSector_Inr:
  assumes "buildSector fW chk c h n cb db ib = Inr (s, chk')"
  obtains adw where "buildSector_words db (cb div 4) ib = Inr adw"
    and "sec_d s = compress adw (cb div 4) (Some 0)"
    and "sec_l s = cb"
    and "chk' = Some (case chk of None \<Rightarrow> 0
                    | Some v \<Rightarrow> v + sum32 (checksum_words (sec_d s) (cb div 4)))"
proof -
  have d: "drop_bit 2 cb = cb div 4" by (simp add: drop_bit_eq_div)
  from assms obtain adw where w: "buildSector_words db (cb div 4) ib = Inr adw"
    and r: "(s, chk') = initSector fW chk
                 \<lparr>sec_c = c, sec_h = h, sec_s = n, sec_l = cb,
                  sec_d = adw, dataError = None, iModify = None, cModify = None\<rparr>
                 adw cb (Some 0)"
    unfolding buildSector_def d by (auto split: sum.splits)
  from r [symmetric] have s: "s = fst (initSector fW chk
                 \<lparr>sec_c = c, sec_h = h, sec_s = n, sec_l = cb,
                  sec_d = adw, dataError = None, iModify = None, cModify = None\<rparr>
                 adw cb (Some 0))"
    and k: "chk' = snd (initSector fW chk
                 \<lparr>sec_c = c, sec_h = h, sec_s = n, sec_l = cb,
                  sec_d = adw, dataError = None, iModify = None, cModify = None\<rparr>
                 adw cb (Some 0))"
    by simp_all
  have sd: "sec_d s = compress adw (cb div 4) (Some 0)" unfolding s by (rule initSector_fields)
  have sl: "sec_l s = cb" unfolding s by (simp add: initSector_fields)
  have ck: "chk' = Some (case chk of None \<Rightarrow> 0
                    | Some v \<Rightarrow> v + sum32 (checksum_words (sec_d s) (cb div 4)))"
    unfolding sd k by (rule initSector_fields)
  from that [OF w sd sl ck] show ?thesis .
qed

lemma expand_words_exact: "length adw = cdw \<Longrightarrow> expand_words adw cdw pat = adw"
  by (simp add: expand_words_def)

lemma buildSector_word_at:
  assumes "buildSector fW chk c h n cb db ib = Inr (s, chk')" "j < cb div 4"
  shows "word_at s j = buffer_word db ib j"
proof -
  from assms(1) obtain adw where w: "buildSector_words db (cb div 4) ib = Inr adw"
    and sd: "sec_d s = compress adw (cb div 4) (Some 0)"
    by (rule buildSector_Inr)
  from buildSector_words_ok [OF w] have l: "length adw = cb div 4"
    and a: "adw ! j = buffer_word db ib j" using assms(2) by simp_all
  show ?thesis
    unfolding word_at_def sd compress_word [OF assms(2)] expand_words_exact [OF l] by (rule a)
qed

lemma buildSector_shape:
  assumes "buildSector fW chk c h n cb db ib = Inr (s, chk')"
  shows "length (sec_d s) \<le> cb div 4" and "4 \<le> cb \<longrightarrow> sec_d s \<noteq> []"
proof -
  from assms obtain adw where w: "buildSector_words db (cb div 4) ib = Inr adw"
    and sd: "sec_d s = compress adw (cb div 4) (Some 0)"
    by (rule buildSector_Inr)
  from buildSector_words_ok [OF w] have l: "length adw = cb div 4" by simp
  show "length (sec_d s) \<le> cb div 4" unfolding sd by (rule compress_length_le) (simp add: l)
  show "4 \<le> cb \<longrightarrow> sec_d s \<noteq> []"
  proof
    assume "4 \<le> cb"
    then have "0 < cb div 4" by simp
    then show "sec_d s \<noteq> []" unfolding sd by (rule compress_nonempty)
  qed
qed

lemma buffer_word_byte:
  assumes "ib + 4 * j < length buf \<longrightarrow> ib + 4 * j + 4 \<le> length buf" "k < 4"
  shows "uint (drop_bit (8 * k) (buffer_word (Some buf) ib j) AND 0xff) =
           (if ib + (4 * j + k) < length buf then uint (buf ! (ib + (4 * j + k))) else 0)"
proof (cases "ib + 4 * j < length buf")
  case True
  with assms(1) have r: "ib + 4 * j + 4 \<le> length buf" by simp
  from assms(2) consider "k = 0" | "k = 1" | "k = 2" | "k = 3" by arith
  then have "[buf ! (ib + 4 * j), buf ! (ib + 4 * j + 1), buf ! (ib + 4 * j + 2),
              buf ! (ib + 4 * j + 3)] ! k = buf ! (ib + (4 * j + k))"
    by cases (simp_all add: add.assoc)
  moreover have "ib + (4 * j + k) < length buf" using r assms(2) by arith
  ultimately show ?thesis
    using True by (simp add: buffer_word_def le32_byte_uint [OF assms(2)])
next
  case False
  then show ?thesis by (simp add: buffer_word_def)
qed

lemma buildSector_bytes:
  assumes "buildSector fW chk c h n cb db ib = Inr (s, chk')" "i < 4 * (cb div 4)"
  shows "read (Some s) i =
           (case db of None \<Rightarrow> 0
            | Some buf \<Rightarrow> if ib + i < length buf then uint (buf ! (ib + i)) else 0)"
proof -
  from assms(1) obtain adw where w: "buildSector_words db (cb div 4) ib = Inr adw"
    and sl: "sec_l s = cb"
    by (rule buildSector_Inr)
  have j: "i div 4 < cb div 4" using assms(2) by arith
  have l: "i < sec_l s" using assms(2) sl by arith
  have k: "i mod 4 < 4" by simp
  have e: "4 * (i div 4) + i mod 4 = i" by simp
  show ?thesis
  proof (cases db)
    case None
    show ?thesis
      unfolding read_word [OF l] buildSector_word_at [OF assms(1) j] None
      by (simp add: buffer_word_def)
  next
    case (Some buf)
    have r: "ib + 4 * (i div 4) < length buf \<longrightarrow> ib + 4 * (i div 4) + 4 \<le> length buf"
      using buildSector_words_range [OF w [unfolded Some] j] by blast
    show ?thesis
      unfolding read_word [OF l] buildSector_word_at [OF assms(1) j] Some
        buffer_word_byte [OF r k] e by simp
  qed
qed

lemma rebuildSector_Inr:
  assumes "rebuildSector dbg fW chk c h js = Inr (s, chk')"
  shows "sec_d s = compress (json_data js) (json_length js div 4) (json_pattern js)"
    and "sec_l s = json_length js"
    and "chk' = Some (case chk of None \<Rightarrow> 0
                    | Some v \<Rightarrow> v + sum32 (checksum_words (sec_d s) (json_length js div 4)))"
proof -
  let ?sec = "\<lparr>sec_c = c, sec_h = h,
        sec_s = (case js_s js of Some s \<Rightarrow> s
                 | None \<Rightarrow> (case js_sector js of None \<Rightarrow> 0 | Some s \<Rightarrow> s)),
        sec_l = json_length js, sec_d = json_data js, dataError = js_dataError js,
        iModify = None, cModify = None\<rparr>"
  from assms have r: "(s, chk') = initSector fW chk ?sec (json_data js) (json_length js) (json_pattern js)"
    unfolding rebuildSector_def json_data_def json_length_def json_pattern_def Let_def
    by (auto split: if_splits option.splits sum.splits)
  from r [symmetric] have s: "s = fst (initSector fW chk ?sec (json_data js) (json_length js) (json_pattern js))"
    and k: "chk' = snd (initSector fW chk ?sec (json_data js) (json_length js) (json_pattern js))"
    by simp_all
  show sd: "sec_d s = compress (json_data js) (json_length js div 4) (json_pattern js)"
    unfolding s by (rule initSector_fields)
  show "sec_l s = json_length js" unfolding s by (simp add: initSector_fields)
  show "chk' = Some (case chk of None \<Rightarrow> 0
                    | Some v \<Rightarrow> v + sum32 (checksum_words (sec_d s) (json_length js div 4)))"
    unfolding sd k by (rule initSector_fields)
qed


subsection \<open>Claim C3\<close>

text \<open>
  Claim C3 says that every sector produced by \<open>buildSector\<close> or \<open>rebuildSector\<close> stores at most
  \<open>length/4\<close> words, that repeating the last stored word up to \<open>length/4\<close> words gives back
  exactly \<open>length\<close> bytes of the original content, and that the stored array is non-empty
  whenever \<open>length > 0\<close>.  As stated it fails: \<open>buildSector\<close> with a sector size of 2 bytes
  returns a sector of length 2 with no data word, and \<open>rebuildSector\<close> keeps both words of a
  JSON sector of 4 bytes that carries two.
\<close>

theorem sector_invariant_counterexample:
  "buildSector False (Some 0) 0 0 1 2 (Some [1, 0]) 0 = Inr (c3_short_sector, Some 0) \<and>
   0 < sec_l c3_short_sector \<and> sec_d c3_short_sector = [] \<and>
   rebuildSector True False (Some 0) 0 0 c3_json = Inr (c3_long_sector, Some 3) \<and>
   sec_l c3_long_sector div 4 < length (sec_d c3_long_sector)"
  by code_simp

text \<open>
  Claim C3, amended.  A sector produced by \<open>buildSector\<close> has the length asked for, stores at
  most \<open>length div 4\<close> words, stores at least one word whenever \<open>length\<close> is at least 4, and
  repeating its last stored word up to \<open>length div 4\<close> words gives back the words read from
  the buffer (zero past its end), so that each of the first \<open>4 * (length div 4)\<close> bytes reads
  back as the byte of the buffer; these are all \<open>length\<close> bytes when \<open>length\<close> is a multiple
  of 4.  A sector produced by \<open>rebuildSector\<close> has the length of the JSON sector, stores at
  least one word whenever that length is at least 4, gives back the words of the JSON sector
  (its data continued by its pattern or its last word) in the same way, and stores at most
  \<open>length div 4\<close> words provided the JSON sector carries no more than that.
\<close>

theorem sector_invariant:
  "(buildSector fW chk c h n cb db ib = Inr (s, chk') \<longrightarrow>
      sec_l s = cb \<and> length (sec_d s) \<le> sec_l s div 4 \<and> (4 \<le> sec_l s \<longrightarrow> sec_d s \<noteq> []) \<and>
      (\<forall>j < sec_l s div 4. word_at s j = buffer_word db ib j) \<and>
      (\<forall>i < 4 * (sec_l s div 4).
          read (Some s) i =
            (case db of None \<Rightarrow> 0
             | Some buf \<Rightarrow> if ib + i < length buf then uint (buf ! (ib + i)) else 0))) \<and>
   (rebuildSector dbg fW chk c h js = Inr (s', chk'') \<longrightarrow>
      sec_l s' = json_length js \<and>
      (length (json_data js) \<le> sec_l s' div 4 \<longrightarrow> length (sec_d s') \<le> sec_l s' div 4) \<and>
      (4 \<le> sec_l s' \<longrightarrow> sec_d s' \<noteq> []) \<and>
      (\<forall>j < sec_l s' div 4.
          word_at s' j = expand_words (json_data js) (sec_l s' div 4) (json_pattern js) ! j))"
proof (intro conjI impI)
  assume b: "buildSector fW chk c h n cb db ib = Inr (s, chk')"
  from b obtain adw where "sec_l s = cb" by (rule buildSector_Inr)
  then show l: "sec_l s = cb" .
  show "length (sec_d s) \<le> sec_l s div 4" unfolding l by (rule buildSector_shape [OF b])
  show "\<forall>j < sec_l s div 4. word_at s j = buffer_word db ib j"
    unfolding l using buildSector_word_at [OF b] by blast
  show "\<forall>i < 4 * (sec_l s div 4).
          read (Some s) i =
            (case db of None \<Rightarrow> 0
             | Some buf \<Rightarrow> if ib + i < length buf then uint (buf ! (ib + i)) else 0)"
    unfolding l using buildSector_bytes [OF b] by blast
  assume "4 \<le> sec_l s"
  then show "sec_d s \<noteq> []" using buildSector_shape(2) [OF b] l by simp
next
  assume r: "rebuildSector dbg fW chk c h js = Inr (s', chk'')"
  note sd = rebuildSector_Inr(1) [OF r]
  show l: "sec_l s' = json_length js" by (rule rebuildSector_Inr(2) [OF r])
  show "\<forall>j < sec_l s' div 4.
          word_at s' j = expand_words (json_data js) (sec_l s' div 4) (json_pattern js) ! j"
    unfolding l word_at_def sd using compress_word by blast
  {
    assume "length (json_data js) \<le> sec_l s' div 4"
    then show "length (sec_d s') \<le> sec_l s' div 4"
      unfolding l sd by (rule compress_length_le)
  }
  {
    assume "4 \<le> sec_l s'"
    then have "0 < json_length js div 4" unfolding l by simp
    then show "sec_d s' \<noteq> []" unfolding sd by (rule compress_nonempty)
  }
qed

theorem sector_invariant_witness:
  "sec_l c3_sector = 16 \<and> length (sec_d c3_sector) \<le> sec_l c3_sector div 4 \<and>
   sec_d c3_sector \<noteq> [] \<and> word_at c3_sector 3 = buffer_word (Some c3_buffer) 0 3 \<and>
   read (Some c3_sector) 12 = uint (c3_buffer ! 12) \<and>
   sec_l c3_long_sector = json_length c3_json \<and> sec_d c3_long_sector \<noteq> [] \<and>
   word_at c3_long_sector 0 = expand_words (json_data c3_json) 1 (json_pattern c3_json) ! 0"
proof -
  have b: "buildSector True (Some 0) 0 0 1 16 (Some c3_buffer) 0 = Inr (c3_sector, Some 1)"
    by code_simp
  have r: "rebuildSector True False (Some 0) 0 0 c3_json = Inr (c3_long_sector, Some 3)"
    by code_simp
  from sector_invariant [where fW = True and chk = "Some 0" and c = 0 and h = 0 and n = 1
      and cb = 16 and db = "Some c3_buffer" and ib = 0 and s = c3_sector and chk' = "Some 1"] b
  have A: "sec_l c3_sector = 16 \<and> length (sec_d c3_sector) \<le> sec_l c3_sector div 4 \<and>
      (4 \<le> sec_l c3_sector \<longrightarrow> sec_d c3_sector \<noteq> []) \<and>
      (\<forall>j < sec_l c3_sector div 4. word_at c3_sector j = buffer_word (Some c3_buffer) 0 j) \<and>
      (\<forall>i < 4 * (sec_l c3_sector div 4).
          read (Some c3_sector) i =
            (case Some c3_buffer of None \<Rightarrow> 0
             | Some buf \<Rightarrow> if 0 + i < length buf then uint (buf ! (0 + i)) else 0))"
    by blast
  from sector_invariant [where fW = False and chk = "Some 0" and c = 0 and h = 0 and dbg = True
      and js = c3_json and s' = c3_long_sector and chk'' = "Some 3"] r
  have B: "sec_l c3_long_sector = json_length c3_json \<and>
      (length (json_data c3_json) \<le> sec_l c3_long_sector div 4 \<longrightarrow>
         length (sec_d c3_long_sector) \<le> sec_l c3_long_sector div 4) \<and>
      (4 \<le> sec_l c3_long_sector \<longrightarrow> sec_d c3_long_sector \<noteq> []) \<and>
      (\<forall>j < sec_l c3_long_sector div 4.
          word_at c3_long_sector j =
            expand_words (json_data c3_json) (sec_l c3_long_sector div 4) (json_pattern c3_json) ! j)"
    by blast
  from A have l: "sec_l c3_sector = 16" and n: "length (sec_d c3_sector) \<le> sec_l c3_sector div 4"
    and e: "4 \<le> sec_l c3_sector \<longrightarrow> sec_d c3_sector \<noteq> []"
    and w: "\<forall>j < sec_l c3_sector div 4. word_at c3_sector j = buffer_word (Some c3_buffer) 0 j"
    and y: "\<forall>i < 4 * (sec_l c3_sector div 4). read (Some c3_sector) i =
              (case Some c3_buffer of None \<Rightarrow> 0
               | Some buf \<Rightarrow> if 0 + i < length buf then uint (buf ! (0 + i)) else 0)"
    by blast+
  from B have l': "sec_l c3_long_sector = json_length c3_json"
    and e': "4 \<le> sec_l c3_long_sector \<longrightarrow> sec_d c3_long_sector \<noteq> []"
    and w': "\<forall>j < sec_l c3_long_sector div 4. word_at c3_long_sector j =
               expand_words (json_data c3_json) (sec_l c3_long_sector div 4) (json_pattern c3_json) ! j"
    by blast+
  have l4: "sec_l c3_long_sector = 4" by (simp add: c3_long_sector_def)
  have "sec_d c3_sector \<noteq> []" using e l by simp
  moreover have "word_at c3_sector 3 = buffer_word (Some c3_buffer) 0 3"
  proof -
    have "(3::nat) < sec_l c3_sector div 4" unfolding l by simp
    with w show ?thesis by blast
  qed
  moreover have "read (Some c3_sector) 12 = uint (c3_buffer ! 12)"
  proof -
    have "(12::nat) < 4 * (sec_l c3_sector div 4)" unfolding l by simp
    with y have "read (Some c3_sector) 12 =
        (case Some c3_buffer of None \<Rightarrow> 0
         | Some buf \<Rightarrow> if 0 + 12 < length buf then uint (buf ! (0 + 12)) else 0)" by blast
    then show ?thesis by (simp add: c3_buffer_def)
  qed
  moreover have "sec_d c3_long_sector \<noteq> []" using e' l4 by simp
  moreover have "word_at c3_long_sector 0 =
      expand_words (json_data c3_json) 1 (json_pattern c3_json) ! 0"
    using w' l4 by simp
  ultimately show ?thesis using l n l' by simp
qed


section \<open>Properties of getData\<close>

subsection \<open>Writing the saved BPB back\<close>


lemma writeUInt8_Some:
  "writeUInt8 db v off = Some db' \<longleftrightarrow> off < length db \<and> db' = db[off := of_nat v]"
  by (auto simp add: writeUInt8_def)

lemma restore_BPB_effect:
  "restore_BPB saved off offs db = Inr db' \<Longrightarrow> distinct offs \<Longrightarrow>
   length db' = length db \<and>
   (\<forall>i \<in> set offs. off + i < length db \<and> db' ! (off + i) = saved_byte saved i) \<and>
   (\<forall>k. k \<notin> (\<lambda>i. off + i) ` set offs \<longrightarrow> db' ! k = db ! k)"
proof (induction offs arbitrary: db)
  case Nil
  then show ?case by simp
next
  case (Cons i offs)
  from Cons.prems(1) obtain db1 where
    w: "writeUInt8 db (if i < length saved then saved ! i else 0) (off + i) = Some db1"
    and r: "restore_BPB saved off offs db1 = Inr db'"
    unfolding restore_BPB.simps BPB_JMP_OPCODE_def diff_zero
    by (auto split: option.splits)
  from w have lt: "off + i < length db"
    and db1: "db1 = db[off + i := saved_byte saved i]"
    by (simp_all add: writeUInt8_Some saved_byte_def)
  from Cons.prems(2) have d: "distinct offs" and ni: "i \<notin> set offs" by simp_all
  from Cons.IH [OF r d] have len: "length db' = length db1"
    and a: "\<forall>j \<in> set offs. off + j < length db1 \<and> db' ! (off + j) = saved_byte saved j"
    and b: "\<forall>k. k \<notin> (\<lambda>i. off + i) ` set offs \<longrightarrow> db' ! k = db1 ! k"
    by blast+
  have l1: "length db1 = length db" by (simp add: db1)
  have "off + i \<notin> (\<lambda>i. off + i) ` set offs" using ni by auto
  with b have "db' ! (off + i) = db1 ! (off + i)" by blast
  then have here: "db' ! (off + i) = saved_byte saved i" using lt by (simp add: db1)
  show ?case
  proof (intro conjI ballI allI impI)
    show "length db' = length db" using len l1 by simp
  next
    fix j assume "j \<in> set (i # offs)"
    then show "off + j < length db" using a l1 lt by auto
  next
    fix j assume "j \<in> set (i # offs)"
    then show "db' ! (off + j) = saved_byte saved j" using a here by auto
  next
    fix k assume k: "k \<notin> (\<lambda>i. off + i) ` set (i # offs)"
    then have "k \<notin> (\<lambda>i. off + i) ` set offs" and "k \<noteq> off + i" by auto
    with b show "db' ! k = db ! k" by (simp add: db1)
  qed
qed

lemma getData_Inr:
  assumes "getData dbg this db = Inr (r, this', db')" "di_aDiskData this = Some grid"
    "di_abOrigBPB this = off # saved"
  obtains ib db1 where "getData_cylinders dbg grid 0 db = Inr (ib, db1)"
    and "restore_BPB saved off [0 ..< 36] db1 = Inr db'"
    and "this' = this\<lparr>di_abOrigBPB := saved\<rparr>" and "r = True"
proof -
  from assms obtain ib db1 where c: "getData_cylinders dbg grid 0 db = Inr (ib, db1)"
    and rs: "restore_BPB saved off [0 ..< 36] db1 = Inr db'"
    and t: "this' = this\<lparr>di_abOrigBPB := saved\<rparr>" and r: "r = True"
    unfolding getData_def bindE_def BPB_JMP_OPCODE_def BPB_LARGE_SECS_def
    by (auto split: sum.splits if_splits prod.splits)
  from that [OF c rs t r] show ?thesis .
qed


section \<open>The checksum of a disk built from a buffer\<close>


lemma foldl_add32: "foldl (+) a zs = a + foldl (+) 0 (zs :: int32 list)"
proof (induction zs arbitrary: a)
  case Nil
  show ?case by simp
next
  case (Cons z zs)
  have "foldl (+) (a + z) zs = a + z + foldl (+) 0 zs" by (rule Cons.IH)
  moreover have "foldl (+) (0 + z) zs = 0 + z + foldl (+) 0 zs" by (rule Cons.IH)
  ultimately show ?case by (simp add: add.assoc)
qed

lemma sum32_append: "sum32 (xs @ ys) = sum32 xs + sum32 ys"
  unfolding sum32_def foldl_append by (rule foldl_add32)

lemma sum32_Cons: "sum32 (x # xs) = x + sum32 xs"
  unfolding sum32_def foldl_Cons using foldl_add32 [of "0 + x" xs] by simp

lemma sum32_Nil [simp]: "sum32 [] = 0"
  by (simp add: sum32_def)

lemma sums_Cons: "sums (s # secs) = sector_sum s + sums secs"
  by (simp add: sums_def sum32_Cons)

lemma sums_append: "sums (xs @ ys) = sums xs + sums ys"
  by (simp add: sums_def sum32_append)

lemma sums_Nil [simp]: "sums [] = 0"
  by (simp add: sums_def)

text \<open>Conditional facts about the sector loop: what any successful run establishes.\<close>

lemma buildSector_checksum:
  assumes "buildSector fW (Some k) c h n cb db ib = Inr (s, chk')"
  shows "chk' = Some (k + sector_sum s)" and "sec_l s = cb"
proof -
  from assms obtain adw where l: "sec_l s = cb"
    and c: "chk' = Some (case Some k of None \<Rightarrow> 0
                    | Some v \<Rightarrow> v + sum32 (checksum_words (sec_d s) (cb div 4)))"
    by (rule buildSector_Inr)
  show "sec_l s = cb" by (rule l)
  show "chk' = Some (k + sector_sum s)" using c by (simp add: sector_sum_def l)
qed

lemma build_sectors_checksum:
  "build_sectors off c h dbTrack n iS offS st = Inr (secs, st') \<Longrightarrow>
   di_dwChecksum (ls_disk st) = Some k \<Longrightarrow>
   di_dwChecksum (ls_disk st') = Some (k + sums secs) \<and> ls_fixed st' = ls_fixed st \<and>
   ls_offTrack st' = ls_offTrack st \<and> ls_offHead st' = ls_offHead st \<and>
   length secs \<le> n \<and> (\<forall>s \<in> set secs. sec_l s = ls_cbSector st)"
proof (induction n arbitrary: iS offS st secs k)
  case 0
  then show ?case by simp
next
  case (Suc n)
  show ?case
  proof (cases "offS < ls_cbTrack st")
    case False
    with Suc.prems show ?thesis by simp
  next
    case True
    let ?cb = "ls_cbSector st"
    let ?dbS = "slice dbTrack offS (offS + ?cb)"
    from Suc.prems(1) True obtain st1 s chk' secs' where
      st1: "(if ls_bMediaID st \<noteq> 0 \<and> c = 0 \<and> h = 0 \<and> iS = off div ?cb + 2
              then (case rd8 ?dbS 0 of Inl e \<Rightarrow> Inl e | Inr b \<Rightarrow> Inr (st\<lparr>ls_bMediaID := 0\<rparr>))
              else Inr st) = Inr st1"
      and bs: "buildSector (di_fWritable (ls_disk st1)) (di_dwChecksum (ls_disk st1))
                 c h iS ?cb (Some ?dbS) 0 = Inr (s, chk')"
      and rec: "build_sectors off c h dbTrack n (iS + 1) (offS + ?cb)
                  (st1\<lparr>ls_disk := (ls_disk st1)\<lparr>di_dwChecksum := chk',
                      di_cbDiskData := di_cbDiskData (ls_disk st1) + sec_l s\<rparr>\<rparr>) = Inr (secs', st')"
      and secs: "secs = s # secs'"
      by (auto simp add: Let_def split: sum.splits prod.splits)
    from st1 have d1: "ls_disk st1 = ls_disk st" and f1: "ls_fixed st1 = ls_fixed st"
      and o1: "ls_offTrack st1 = ls_offTrack st" "ls_offHead st1 = ls_offHead st"
      by (auto simp add: ls_fixed_def split: if_splits sum.splits)
    from bs Suc.prems(2) have ck: "chk' = Some (k + sector_sum s)" and sl: "sec_l s = ?cb"
      using buildSector_checksum [of "di_fWritable (ls_disk st1)" k c h iS ?cb "Some ?dbS" 0 s chk']
      by (simp_all add: d1)
    let ?st2 = "st1\<lparr>ls_disk := (ls_disk st1)\<lparr>di_dwChecksum := chk',
                      di_cbDiskData := di_cbDiskData (ls_disk st1) + sec_l s\<rparr>\<rparr>"
    have k2: "di_dwChecksum (ls_disk ?st2) = Some (k + sector_sum s)" by (simp add: ck)
    have f2: "ls_fixed ?st2 = ls_fixed st" using f1 by (simp add: ls_fixed_def)
    have cb2: "ls_cbSector ?st2 = ?cb" using f1 by (simp add: ls_fixed_def)
    from Suc.IH [OF rec k2] have
      a: "di_dwChecksum (ls_disk st') = Some (k + sector_sum s + sums secs')"
      and b: "ls_fixed st' = ls_fixed ?st2"
      and o: "ls_offTrack st' = ls_offTrack ?st2" "ls_offHead st' = ls_offHead ?st2"
      and l: "length secs' \<le> n" and e: "\<forall>s \<in> set secs'. sec_l s = ls_cbSector ?st2"
      by blast+
    show ?thesis
      using a b o l e f2 cb2 o1 sl by (simp add: secs sums_Cons add.assoc)
  qed
qed


lemma track_sectors_built [simp]:
  "track_sectors (map Some secs @ replicate k None) = secs"
  by (induction secs) (simp_all add: track_sectors_def)

lemma build_sectors_di_fixed:
  "build_sectors off c h dbTrack n iS offS st = Inr (secs, st') \<Longrightarrow>
   di_dwChecksum (ls_disk st) = Some k \<Longrightarrow> di_fixed (ls_disk st') = di_fixed (ls_disk st)"
  using build_sectors_checksum [of off c h dbTrack n iS offS st secs st' k]
  by (simp add: ls_fixed_def di_fixed_def)

lemma build_heads_checksum:
  "build_heads db aTracks off c n h st = Inr (hs, st') \<Longrightarrow>
   di_dwChecksum (ls_disk st) = Some k \<Longrightarrow>
   di_dwChecksum (ls_disk st') = Some (k + sums (concat (map track_sectors hs))) \<and>
   di_fixed (ls_disk st') = di_fixed (ls_disk st)"
proof (induction n arbitrary: h st hs k)
  case 0
  then show ?case by simp
next
  case (Suc n)
  from Suc.prems(1) obtain dbTrack st1 secs st3 hs' where
    st1: "(if aTracks \<noteq> [] then
              (if ls_iTrack st < length aTracks then
                 (case aTracks ! ls_iTrack st of
                    (nSectorsPerTrack, cbSector, dbTrack) \<Rightarrow>
                      Inr (dbTrack,
                           st\<lparr>ls_iTrack := ls_iTrack st + 1,
                              ls_nSectorsPerTrack := nSectorsPerTrack,
                              ls_nLogicalSectorsPerTrack := nSectorsPerTrack,
                              ls_cbSector := cbSector,
                              ls_cbTrack := nSectorsPerTrack * cbSector\<rparr>))
               else Inl TypeError)
            else Inr (slice db (ls_offTrack st + ls_offHead st)
                        (ls_offTrack st + ls_offHead st + ls_cbTrack st), st)) = Inr (dbTrack, st1)"
    and bs: "build_sectors off c h dbTrack (ls_nLogicalSectorsPerTrack st1) 1 0
               (st1\<lparr>ls_disk := (ls_disk st1)
                        \<lparr>di_nSectors := ls_nLogicalSectorsPerTrack st1,
                         di_cbSector := ls_cbSector st1\<rparr>\<rparr>) = Inr (secs, st3)"
    and rec: "build_heads db aTracks off c n (h + 1)
                (st3\<lparr>ls_offHead := ls_offHead st3 + ls_cbTrack st3\<rparr>) = Inr (hs', st')"
    and hs: "hs = (map Some secs @ replicate (ls_nLogicalSectorsPerTrack st1 - length secs) None) # hs'"
    by (auto simp add: Let_def split: sum.splits prod.splits)
  from st1 have d1: "ls_disk st1 = ls_disk st"
    by (auto split: if_splits prod.splits)
  let ?st2 = "st1\<lparr>ls_disk := (ls_disk st1)
                        \<lparr>di_nSectors := ls_nLogicalSectorsPerTrack st1,
                         di_cbSector := ls_cbSector st1\<rparr>\<rparr>"
  have k2: "di_dwChecksum (ls_disk ?st2) = Some k" using Suc.prems(2) by (simp add: d1)
  have f2: "di_fixed (ls_disk ?st2) = di_fixed (ls_disk st)" by (simp add: d1 di_fixed_def)
  from build_sectors_checksum [OF bs k2]
  have k3: "di_dwChecksum (ls_disk st3) = Some (k + sums secs)" by blast
  from build_sectors_di_fixed [OF bs k2] f2
  have f3: "di_fixed (ls_disk st3) = di_fixed (ls_disk st)" by simp
  let ?st4 = "st3\<lparr>ls_offHead := ls_offHead st3 + ls_cbTrack st3\<rparr>"
  have k4: "di_dwChecksum (ls_disk ?st4) = Some (k + sums secs)" using k3 by simp
  from Suc.IH [OF rec k4] f3 show ?case
    by (simp add: hs sums_append add.assoc)
qed

lemma build_cylinders_checksum:
  "build_cylinders db aTracks off nH n c st = Inr (grid, st') \<Longrightarrow>
   di_dwChecksum (ls_disk st) = Some k \<Longrightarrow>
   di_dwChecksum (ls_disk st') = Some (k + sums (sectors_of grid)) \<and>
   di_fixed (ls_disk st') = di_fixed (ls_disk st)"
proof (induction n arbitrary: c st grid k)
  case 0
  then show ?case by (simp add: sectors_of_def)
next
  case (Suc n)
  let ?st1 = "st\<lparr>ls_disk := (ls_disk st)\<lparr>di_nHeads := nH\<rparr>, ls_offHead := 0\<rparr>"
  from Suc.prems(1) obtain hs st2 grid' where
    bh: "build_heads db aTracks off c nH 0 ?st1 = Inr (hs, st2)"
    and rec: "build_cylinders db aTracks off nH n (c + 1)
                (st2\<lparr>ls_offTrack := ls_offTrack st2 + ls_offHead st2\<rparr>) = Inr (grid', st')"
    and g: "grid = hs # grid'"
    by (auto simp add: Let_def split: sum.splits prod.splits)
  have k1: "di_dwChecksum (ls_disk ?st1) = Some k" using Suc.prems(2) by simp
  from build_heads_checksum [OF bh k1]
  have k2: "di_dwChecksum (ls_disk st2) = Some (k + sums (concat (map track_sectors hs)))"
    and f2: "di_fixed (ls_disk st2) = di_fixed (ls_disk st)"
    by (simp_all add: di_fixed_def)
  let ?st3 = "st2\<lparr>ls_offTrack := ls_offTrack st2 + ls_offHead st2\<rparr>"
  have k3: "di_dwChecksum (ls_disk ?st3) = Some (k + sums (concat (map track_sectors hs)))"
    using k2 by simp
  from Suc.IH [OF rec k3] f2 show ?case
    by (simp add: g sectors_of_def sums_append add.assoc)
qed

lemma prepare_buffer_checksum:
  "prepare_buffer this db hash force = Inr (off, g, aTracks, db', this1) \<Longrightarrow>
   di_dwChecksum this1 = Some 0 \<and> di_aDiskData this1 = None \<and> di_cbDiskData this1 = 0
   \<and> di_fWritable this1 = di_fWritable this"
  unfolding prepare_buffer_def Let_def bindE_def
  by (auto split: sum.splits prod.splits)

lemma buildDiskFromBuffer_checksum:
  assumes "buildDiskFromBuffer this db hash force = Inr (True, disk, db')"
  shows "\<exists>grid. di_aDiskData disk = Some grid \<and> di_dwChecksum disk = Some (sums (sectors_of grid))"
proof -
  from assms obtain off g aTracks this1 where
    p: "prepare_buffer this db hash force = Inr (off, g, aTracks, db', this1)"
    and r: "(if g_nHeads g \<noteq> 0 then
         (let this2 = this1\<lparr>di_aDiskData := Some [],
                             di_hash := (if hash \<noteq> [] then hash else di_hash this1),
                             di_nCylinders := g_nCylinders g\<rparr>;
              st = \<lparr>ls_disk = this2, ls_bMediaID = g_bMediaID g, ls_iTrack = 0,
                    ls_nSectorsPerTrack = g_nSectorsPerTrack g,
                    ls_nLogicalSectorsPerTrack = g_nLogicalSectorsPerTrack g,
                    ls_cbSector = g_cbSector g,
                    ls_cbTrack = g_nSectorsPerTrack g * g_cbSector g,
                    ls_offTrack = 0, ls_offHead = 0\<rparr>
          in bindE (build_cylinders db' aTracks off (g_nHeads g) (g_nCylinders g) 0 st)
               (\<lambda>(aCylinders, st').
                  Inr (True, (ls_disk st')\<lparr>di_aDiskData := Some aCylinders\<rparr>, db')))
       else Inr (False, this1, db')) = Inr (True, disk, db')"
    unfolding buildDiskFromBuffer_def bindE_def
    by (auto split: sum.splits prod.splits if_splits simp add: Let_def)
  from r have nh: "g_nHeads g \<noteq> 0" by (auto split: if_splits)
  let ?st = "\<lparr>ls_disk = this1\<lparr>di_aDiskData := Some [],
                             di_hash := (if hash \<noteq> [] then hash else di_hash this1),
                             di_nCylinders := g_nCylinders g\<rparr>, ls_bMediaID = g_bMediaID g, ls_iTrack = 0,
                    ls_nSectorsPerTrack = g_nSectorsPerTrack g,
                    ls_nLogicalSectorsPerTrack = g_nLogicalSectorsPerTrack g,
                    ls_cbSector = g_cbSector g,
                    ls_cbTrack = g_nSectorsPerTrack g * g_cbSector g,
                    ls_offTrack = 0, ls_offHead = 0\<rparr>"
  from r nh obtain grid st' where
    bc: "build_cylinders db' aTracks off (g_nHeads g) (g_nCylinders g) 0 ?st = Inr (grid, st')"
    and d: "disk = (ls_disk st')\<lparr>di_aDiskData := Some grid\<rparr>"
    unfolding bindE_def by (auto simp add: Let_def split: sum.splits prod.splits)
  have k: "di_dwChecksum (ls_disk ?st) = Some 0"
    using prepare_buffer_checksum [OF p] by simp
  from build_cylinders_checksum [OF bc k] show ?thesis by (simp add: d)
qed

section \<open>The bytes of a disk built from a buffer without a track table\<close>


lemma buildSector_words_total:
  "ib + 4 * n \<le> length buf \<Longrightarrow> \<exists>adw. buildSector_words (Some buf) n ib = Inr adw"
proof (induction n arbitrary: ib)
  case 0
  show ?case by simp
next
  case (Suc n)
  from Suc.prems have "ib + 4 + 4 * n \<le> length buf" by simp
  from Suc.IH [OF this] obtain adw where "buildSector_words (Some buf) n (ib + 4) = Inr adw" ..
  moreover from Suc.prems have "ib + 4 \<le> length buf" by simp
  ultimately show ?case by (simp add: readInt32LE_def)
qed

lemma buildSector_total:
  assumes "4 * (cb div 4) \<le> length buf"
  shows "\<exists>s chk'. buildSector fW chk c h n cb (Some buf) 0 = Inr (s, chk')"
proof -
  from assms have "0 + 4 * (cb div 4) \<le> length buf" by simp
  from buildSector_words_total [OF this] obtain adw
    where "buildSector_words (Some buf) (cb div 4) 0 = Inr adw" ..
  then show ?thesis
    unfolding buildSector_def by (simp add: drop_bit_eq_div prod_eq_iff)
qed

lemma buildSector_sector_bytes:
  assumes "buildSector fW chk c h n cb (Some buf) 0 = Inr (s, chk')"
    and "length buf = cb" and "4 dvd cb"
  shows "sector_bytes s = map uint buf"
proof (rule nth_equalityI)
  from assms(1) have sl: "sec_l s = cb" by (rule buildSector_Inr)
  show "length (sector_bytes s) = length (map uint buf)"
    by (simp add: sector_bytes_def sl assms(2))
  fix i assume "i < length (sector_bytes s)"
  then have i: "i < cb" by (simp add: sector_bytes_def sl)
  from assms(3) have "4 * (cb div 4) = cb" by simp
  with i have i4: "i < 4 * (cb div 4)" by simp
  from buildSector_bytes [OF assms(1) i4] i
  show "sector_bytes s ! i = map uint buf ! i"
    by (simp add: sector_bytes_def sl assms(2))
qed

lemma slice_full:
  "e \<le> length db \<Longrightarrow> b \<le> e \<Longrightarrow> length (slice db b e) = e - b"
  by (simp add: slice_def)

lemma build_sectors_content:
  assumes "ls_cbSector st = cb" "0 < cb" "4 dvd cb"
    and "offS + n * cb \<le> ls_cbTrack st" "ls_cbTrack st \<le> length dbTrack"
  shows "\<exists>secs st'. build_sectors off c h dbTrack n iS offS st = Inr (secs, st')
           \<and> length secs = n
           \<and> concat (map sector_bytes secs) = map uint (take (n * cb) (drop offS dbTrack))"
  using assms
proof (induction n arbitrary: iS offS st)
  case 0
  show ?case by simp
next
  case (Suc n)
  let ?dbS = "slice dbTrack offS (offS + cb)"
  from Suc.prems(2,4) have lt: "offS < ls_cbTrack st" by simp
  from Suc.prems(4,5) have le: "offS + cb \<le> length dbTrack" by simp
  then have ls: "length ?dbS = cb" by (simp add: slice_def)
  have "0 < length ?dbS" using ls Suc.prems(2) by simp
  then have r8: "rd8 ?dbS 0 = Inr (unat (?dbS ! 0))"
    by (simp add: rd8_def ranged_def readUInt8_def)
  define st1 where "st1 = (if ls_bMediaID st \<noteq> 0 \<and> c = 0 \<and> h = 0 \<and> iS = off div cb + 2
                            then st\<lparr>ls_bMediaID := 0\<rparr> else st)"
  have d1: "ls_disk st1 = ls_disk st" and c1: "ls_cbSector st1 = cb"
    and t1: "ls_cbTrack st1 = ls_cbTrack st"
    by (simp_all add: st1_def Suc.prems(1))
  have "4 * (cb div 4) \<le> length ?dbS" using ls by simp
  from buildSector_total [OF this] obtain s chk' where
    bs: "buildSector (di_fWritable (ls_disk st1)) (di_dwChecksum (ls_disk st1)) c h iS cb
           (Some ?dbS) 0 = Inr (s, chk')" by blast
  from buildSector_sector_bytes [OF bs ls Suc.prems(3)]
  have sb: "sector_bytes s = map uint ?dbS" .
  let ?st2 = "st1\<lparr>ls_disk := (ls_disk st1)\<lparr>di_dwChecksum := chk',
                      di_cbDiskData := di_cbDiskData (ls_disk st1) + sec_l s\<rparr>\<rparr>"
  have c2: "ls_cbSector ?st2 = cb" by (simp add: c1)
  have b2: "offS + cb + n * cb \<le> ls_cbTrack ?st2" using Suc.prems(4) by (simp add: t1)
  have l2: "ls_cbTrack ?st2 \<le> length dbTrack" using Suc.prems(5) by (simp add: t1)
  from Suc.IH [OF c2 Suc.prems(2,3) b2 l2, of "iS + 1"] obtain secs st' where
    rec: "build_sectors off c h dbTrack n (iS + 1) (offS + cb) ?st2 = Inr (secs, st')"
    and len: "length secs = n"
    and bts: "concat (map sector_bytes secs) = map uint (take (n * cb) (drop (offS + cb) dbTrack))"
    by blast
  have run: "build_sectors off c h dbTrack (Suc n) iS offS st = Inr (s # secs, st')"
  proof (cases "ls_bMediaID st \<noteq> 0 \<and> c = 0 \<and> h = 0 \<and> iS = off div cb + 2")
    case True
    then have e: "st1 = st\<lparr>ls_bMediaID := 0\<rparr>" by (simp add: st1_def)
    show ?thesis
      unfolding build_sectors.simps Let_def Suc.prems(1) if_P [OF lt] if_P [OF True]
      using r8 bs [unfolded e] rec [unfolded e] by simp
  next
    case False
    then have e: "st1 = st" by (simp add: st1_def)
    show ?thesis
      unfolding build_sectors.simps Let_def Suc.prems(1) if_P [OF lt] if_not_P [OF False]
      using bs [unfolded e] rec [unfolded e] by simp
  qed
  have "take (Suc n * cb) (drop offS dbTrack)
          = take cb (drop offS dbTrack) @ take (n * cb) (drop (offS + cb) dbTrack)"
    by (simp add: take_add add.commute)
  then have "map uint (take (Suc n * cb) (drop offS dbTrack))
          = map uint ?dbS @ map uint (take (n * cb) (drop (offS + cb) dbTrack))"
    by (simp add: slice_def)
  with run len bts sb show ?case by simp
qed


lemma track_data_0 [simp]: "track_data db base T m 0 = []"
  by (simp add: track_data_def)

lemma track_data_Suc:
  "track_data db base T m (Suc n) = take m (drop base db) @ track_data db (base + T) T m n"
proof -
  have "[0 ..< Suc n] = 0 # map Suc [0 ..< n]"
    by (simp add: upt_conv_Cons map_Suc_upt del: upt_Suc)
  then show ?thesis
    unfolding track_data_def by (simp add: comp_def add.assoc del: upt_Suc)
qed

lemma track_data_add:
  "track_data db base T m (a + b) = track_data db base T m a @ track_data db (base + a * T) T m b"
proof (induction a arbitrary: base)
  case 0
  show ?case by simp
next
  case (Suc a)
  have "track_data db base T m (Suc (a + b))
          = take m (drop base db) @ track_data db (base + T) T m (a + b)"
    by (rule track_data_Suc)
  also have "\<dots> = take m (drop base db) @ track_data db (base + T) T m a
                    @ track_data db (base + T + a * T) T m b"
    by (simp add: Suc.IH)
  finally show ?case by (simp add: track_data_Suc add.assoc)
qed

lemma track_data_full: "track_data db base T T n = take (n * T) (drop base db)"
proof (induction n arbitrary: base)
  case 0
  show ?case by simp
next
  case (Suc n)
  have "take (T + n * T) (drop base db) = take T (drop base db) @ take (n * T) (drop (base + T) db)"
    by (simp add: take_add add.commute)
  then show ?case by (simp add: track_data_Suc Suc.IH)
qed

lemma build_heads_content:
  assumes "ls_cbSector st = cb" "0 < cb" "4 dvd cb"
    and "ls_cbTrack st = T" "ls_nLogicalSectorsPerTrack st = L" "L * cb \<le> T"
    and "ls_offTrack st + ls_offHead st + n * T \<le> length db"
    and "di_dwChecksum (ls_disk st) = Some k"
  shows "\<exists>hs st'. build_heads db [] off c n h st = Inr (hs, st')
           \<and> concat (map sector_bytes (concat (map track_sectors hs)))
               = map uint (track_data db (ls_offTrack st + ls_offHead st) T (L * cb) n)
           \<and> ls_cbSector st' = cb \<and> ls_cbTrack st' = T \<and> ls_nLogicalSectorsPerTrack st' = L
           \<and> ls_offTrack st' = ls_offTrack st \<and> ls_offHead st' = ls_offHead st + n * T
           \<and> (\<exists>k'. di_dwChecksum (ls_disk st') = Some k')"
  using assms
proof (induction n arbitrary: h st k)
  case 0
  then show ?case by simp
next
  case (Suc n)
  let ?base = "ls_offTrack st + ls_offHead st"
  let ?dbT = "slice db ?base (?base + T)"
  let ?st2 = "st\<lparr>ls_disk := (ls_disk st)
                        \<lparr>di_nSectors := ls_nLogicalSectorsPerTrack st,
                         di_cbSector := ls_cbSector st\<rparr>\<rparr>"
  from Suc.prems(7) have le: "?base + T \<le> length db" by simp
  then have lT: "length ?dbT = T" by (simp add: slice_def)
  have c2: "ls_cbSector ?st2 = cb" by (simp add: Suc.prems(1))
  have b2: "0 + L * cb \<le> ls_cbTrack ?st2" using Suc.prems(4,6) by simp
  have l2: "ls_cbTrack ?st2 \<le> length ?dbT" using lT Suc.prems(4) by simp
  have k2: "di_dwChecksum (ls_disk ?st2) = Some k" using Suc.prems(8) by simp
  from build_sectors_content [OF c2 Suc.prems(2,3) b2 l2, of off c h 1] obtain secs st3 where
    bs: "build_sectors off c h ?dbT L 1 0 ?st2 = Inr (secs, st3)"
    and len: "length secs = L"
    and bts: "concat (map sector_bytes secs) = map uint (take (L * cb) (drop 0 ?dbT))"
    by blast
  from build_sectors_checksum [OF bs k2] have
    k3: "di_dwChecksum (ls_disk st3) = Some (k + sums secs)"
    and f3: "ls_fixed st3 = ls_fixed ?st2"
    and o3: "ls_offTrack st3 = ls_offTrack st" "ls_offHead st3 = ls_offHead st"
    by simp_all
  from f3 have g3: "ls_cbSector st3 = cb" "ls_cbTrack st3 = T" "ls_nLogicalSectorsPerTrack st3 = L"
    using Suc.prems(1,4,5) by (simp_all add: ls_fixed_def)
  let ?st4 = "st3\<lparr>ls_offHead := ls_offHead st3 + ls_cbTrack st3\<rparr>"
  have c4: "ls_cbSector ?st4 = cb" and t4: "ls_cbTrack ?st4 = T"
    and n4: "ls_nLogicalSectorsPerTrack ?st4 = L"
    and k4: "di_dwChecksum (ls_disk ?st4) = Some (k + sums secs)"
    using g3 k3 by simp_all
  have b4: "ls_offTrack ?st4 + ls_offHead ?st4 + n * T \<le> length db"
    using Suc.prems(7) o3 g3 by simp
  from Suc.IH [OF c4 Suc.prems(2,3) t4 n4 Suc.prems(6) b4 k4, of "h + 1"] obtain hs st' where
    rec: "build_heads db [] off c n (h + 1) ?st4 = Inr (hs, st')"
    and hb: "concat (map sector_bytes (concat (map track_sectors hs)))
               = map uint (track_data db (ls_offTrack ?st4 + ls_offHead ?st4) T (L * cb) n)"
    and r: "ls_cbSector st' = cb" "ls_cbTrack st' = T" "ls_nLogicalSectorsPerTrack st' = L"
      "ls_offTrack st' = ls_offTrack ?st4" "ls_offHead st' = ls_offHead ?st4 + n * T"
      "\<exists>k'. di_dwChecksum (ls_disk st') = Some k'"
    by blast
  have run: "build_heads db [] off c (Suc n) h st
               = Inr ((map Some secs @ replicate (L - length secs) None) # hs, st')"
    using bs rec by (simp add: Let_def Suc.prems(4,5))
  have tk: "take (L * cb) (drop 0 ?dbT) = take (L * cb) (drop ?base db)"
    using Suc.prems(6) by (simp add: slice_def min_def)
  have o4: "ls_offTrack ?st4 + ls_offHead ?st4 = ?base + T" using o3 g3 by simp
  have e1: "concat (map sector_bytes secs) = map uint (take (L * cb) (drop ?base db))"
    unfolding bts tk ..
  have e2: "concat (map sector_bytes (concat (map track_sectors hs)))
              = map uint (track_data db (?base + T) T (L * cb) n)"
    unfolding hb o4 ..
  have e3: "concat (map sector_bytes (concat (map track_sectors
              ((map Some secs @ replicate (L - length secs) None) # hs))))
              = map uint (track_data db ?base T (L * cb) (Suc n))"
    unfolding track_data_Suc using e1 e2 by simp
  have e4: "ls_offHead st' = ls_offHead st + Suc n * T" using r(5) o3 g3 by simp
  have e5: "ls_offTrack st' = ls_offTrack st" using r(4) o3 by simp
  from run e3 r(1,2,3,6) e4 e5 show ?case by blast
qed

lemma build_cylinders_content:
  assumes "ls_cbSector st = cb" "0 < cb" "4 dvd cb"
    and "ls_cbTrack st = T" "ls_nLogicalSectorsPerTrack st = L" "L * cb \<le> T"
    and "ls_offTrack st + n * nH * T \<le> length db"
    and "di_dwChecksum (ls_disk st) = Some k"
  shows "\<exists>grid st'. build_cylinders db [] off nH n c st = Inr (grid, st')
           \<and> grid_bytes grid = map uint (track_data db (ls_offTrack st) T (L * cb) (n * nH))"
  using assms
proof (induction n arbitrary: c st k)
  case 0
  show ?case by (simp add: grid_bytes_def sectors_of_def)
next
  case (Suc n)
  let ?st1 = "st\<lparr>ls_disk := (ls_disk st)\<lparr>di_nHeads := nH\<rparr>, ls_offHead := 0\<rparr>"
  have c1: "ls_cbSector ?st1 = cb" and t1: "ls_cbTrack ?st1 = T"
    and n1: "ls_nLogicalSectorsPerTrack ?st1 = L"
    and k1: "di_dwChecksum (ls_disk ?st1) = Some k"
    using Suc.prems(1,4,5,8) by simp_all
  have sp: "Suc n * nH * T = nH * T + n * nH * T" by (simp add: algebra_simps)
  from Suc.prems(7) have b1: "ls_offTrack ?st1 + ls_offHead ?st1 + nH * T \<le> length db"
    unfolding sp by simp
  from build_heads_content [OF c1 Suc.prems(2,3) t1 n1 Suc.prems(6) b1 k1, of off c 0]
  obtain hs st2 k' where
    bh: "build_heads db [] off c nH 0 ?st1 = Inr (hs, st2)"
    and hb: "concat (map sector_bytes (concat (map track_sectors hs)))
               = map uint (track_data db (ls_offTrack st) T (L * cb) nH)"
    and r: "ls_cbSector st2 = cb" "ls_cbTrack st2 = T" "ls_nLogicalSectorsPerTrack st2 = L"
      "ls_offTrack st2 = ls_offTrack st" "ls_offHead st2 = nH * T"
      "di_dwChecksum (ls_disk st2) = Some k'"
    by auto
  let ?st3 = "st2\<lparr>ls_offTrack := ls_offTrack st2 + ls_offHead st2\<rparr>"
  have c3: "ls_cbSector ?st3 = cb" and t3: "ls_cbTrack ?st3 = T"
    and n3: "ls_nLogicalSectorsPerTrack ?st3 = L"
    and k3: "di_dwChecksum (ls_disk ?st3) = Some k'"
    using r by simp_all
  have b3: "ls_offTrack ?st3 + n * nH * T \<le> length db"
    using Suc.prems(7) r unfolding sp by simp
  from Suc.IH [OF c3 Suc.prems(2,3) t3 n3 Suc.prems(6) b3 k3, of "c + 1"] obtain grid st' where
    rec: "build_cylinders db [] off nH n (c + 1) ?st3 = Inr (grid, st')"
    and gb: "grid_bytes grid = map uint (track_data db (ls_offTrack ?st3) T (L * cb) (n * nH))"
    by blast
  have run: "build_cylinders db [] off nH (Suc n) c st = Inr (hs # grid, st')"
    using bh rec by (simp add: Let_def)
  have o3: "ls_offTrack ?st3 = ls_offTrack st + nH * T" using r by simp
  have "track_data db (ls_offTrack st) T (L * cb) (Suc n * nH)
          = track_data db (ls_offTrack st) T (L * cb) nH
            @ track_data db (ls_offTrack st + nH * T) T (L * cb) (n * nH)"
    using track_data_add [of db "ls_offTrack st" T "L * cb" nH "n * nH"] by simp
  moreover have "grid_bytes (hs # grid)
          = concat (map sector_bytes (concat (map track_sectors hs))) @ grid_bytes grid"
    by (simp add: grid_bytes_def sectors_of_def)
  ultimately show ?case using run hb gb by (simp add: o3)
qed

section \<open>The bytes getData stores\<close>


lemma splice_Nil [simp]: "splice db ib [] = db"
  by (simp add: splice_def)

lemma splice_length: "ib + length xs \<le> length db \<Longrightarrow> length (splice db ib xs) = length db"
  by (simp add: splice_def)

lemma splice_append:
  assumes "ib + length xs \<le> length db"
  shows "splice (splice db ib xs) (ib + length xs) ys = splice db ib (xs @ ys)"
proof -
  let ?a = "take ib db" and ?r = "drop (ib + length xs) db"
  from assms have m: "min (length db) ib = ib" by simp
  have t: "take (ib + length xs) (?a @ xs @ ?r) = ?a @ xs"
    by (simp add: m)
  have "drop (ib + length xs + length ys) (?a @ xs @ ?r) = drop (length ys) ?r"
    by (simp add: m)
  then have d: "drop (ib + length xs + length ys) (?a @ xs @ ?r)
                  = drop (ib + length xs + length ys) db"
    by (simp add: add.commute add.left_commute)
  show ?thesis
    unfolding splice_def using t d by (simp add: add.assoc)
qed

lemma splice_Cons:
  assumes "ib < length db"
  shows "splice (db[ib := x]) (Suc ib) ys = splice db ib (x # ys)"
proof -
  from assms have "take (Suc ib) (db[ib := x]) = take ib db @ [x]"
    by (simp add: take_Suc_conv_app_nth)
  then show ?thesis by (simp add: splice_def)
qed

lemma splice_all: "length xs = length db \<Longrightarrow> splice db 0 xs = xs"
  by (simp add: splice_def)


lemma getData_bytes_ok:
  "i + n \<le> sec_l s \<Longrightarrow> ib + n \<le> length db \<Longrightarrow>
   getData_bytes dbg s n i ib db
     = Inr (ib + n, splice db ib (map (\<lambda>j. stored_byte (read (Some s) j)) [i ..< i + n]))"
proof (induction n arbitrary: i ib db)
  case 0
  show ?case by simp
next
  case (Suc n)
  from Suc.prems(1) have i: "i < sec_l s" by simp
  from read_range [OF i] have nn: "0 \<le> read (Some s) i" by simp
  from Suc.prems(2) have ib: "ib < length db" by simp
  let ?x = "stored_byte (read (Some s) i)"
  have w: "writeUInt8 db (nat (read (Some s) i)) ib = Some (db[ib := ?x])"
    using ib by (simp add: writeUInt8_Some stored_byte_def)
  have a: "Suc i + n \<le> sec_l s" using Suc.prems(1) by simp
  have b: "Suc ib + n \<le> length (db[ib := ?x])" using Suc.prems(2) by simp
  have u: "[i ..< i + Suc n] = i # [Suc i ..< Suc i + n]" by (simp add: upt_conv_Cons del: upt_Suc)
  show ?case
    unfolding getData_bytes.simps Let_def u
    using nn w Suc.IH [OF a b] by (simp add: assert_fails_def splice_Cons [OF ib])
qed

lemma getData_bytes_sector:
  assumes "ib + sec_l s \<le> length db"
  shows "getData_bytes dbg s (sec_l s) 0 ib db
           = Inr (ib + length (sector_bytes s), splice db ib (map stored_byte (sector_bytes s)))"
  using getData_bytes_ok [of 0 "sec_l s" s ib db dbg] assms
  by (simp add: sector_bytes_def comp_def)

lemma track_sectors_Cons:
  "track_sectors (None # track) = track_sectors track"
  "track_sectors (Some s # track) = s # track_sectors track"
  by (simp_all add: track_sectors_def)

lemma sector_bytes_length: "length (sector_bytes s) = sec_l s"
  by (simp add: sector_bytes_def)

lemma getData_sectors_ok:
  "ib + length (concat (map sector_bytes (track_sectors track))) \<le> length db \<Longrightarrow>
   getData_sectors dbg track ib db
     = Inr (ib + length (concat (map sector_bytes (track_sectors track))),
            splice db ib (map stored_byte (concat (map sector_bytes (track_sectors track)))))"
proof (induction track arbitrary: ib db)
  case Nil
  show ?case by (simp add: track_sectors_def)
next
  case (Cons x track)
  show ?case
  proof (cases x)
    case None
    with Cons show ?thesis by (simp add: track_sectors_Cons)
  next
    case (Some s)
    let ?xs = "map stored_byte (sector_bytes s)"
    let ?rest = "concat (map sector_bytes (track_sectors track))"
    from Cons.prems have le: "ib + sec_l s + length ?rest \<le> length db"
      by (simp add: Some track_sectors_Cons sector_bytes_length)
    then have l1: "ib + sec_l s \<le> length db" by simp
    have lx: "length ?xs = sec_l s" by (simp add: sector_bytes_length)
    have l2: "ib + length ?xs \<le> length db" using l1 lx by simp
    have l3: "ib + length (sector_bytes s) + length ?rest \<le> length (splice db ib ?xs)"
      using le by (simp add: splice_length [OF l2] sector_bytes_length)
    show ?thesis
      using getData_bytes_sector [OF l1, of dbg] Cons.IH [OF l3] splice_append [OF l2, of "map stored_byte ?rest"]
      by (simp add: Some track_sectors_Cons sector_bytes_length add.assoc)
  qed
qed


lemma getData_heads_ok:
  "ib + length (concat (map sector_bytes (concat (map track_sectors tracks)))) \<le> length db \<Longrightarrow>
   getData_heads dbg tracks ib db
     = Inr (ib + length (concat (map sector_bytes (concat (map track_sectors tracks)))),
            splice db ib (map stored_byte
              (concat (map sector_bytes (concat (map track_sectors tracks))))))"
proof (induction tracks arbitrary: ib db)
  case Nil
  show ?case by simp
next
  case (Cons track tracks)
  let ?xs = "concat (map sector_bytes (track_sectors track))"
  let ?rest = "concat (map sector_bytes (concat (map track_sectors tracks)))"
  from Cons.prems have le: "ib + length ?xs + length ?rest \<le> length db" by simp
  then have l1: "ib + length ?xs \<le> length db" by simp
  have l2: "ib + length (map stored_byte ?xs) \<le> length db" using l1 by simp
  have l3: "ib + length ?xs + length ?rest \<le> length (splice db ib (map stored_byte ?xs))"
    using le by (simp add: splice_length [OF l2])
  have sp: "splice (splice db ib (map stored_byte ?xs)) (ib + length ?xs) (map stored_byte ?rest)
              = splice db ib (map stored_byte ?xs @ map stored_byte ?rest)"
    using splice_append [OF l2, of "map stored_byte ?rest"] by simp
  show ?case
    using getData_sectors_ok [OF l1, of dbg] Cons.IH [OF l3] sp
    by (simp add: add.assoc)
qed

lemma grid_bytes_Cons:
  "grid_bytes (cyl # grid)
     = concat (map sector_bytes (concat (map track_sectors cyl))) @ grid_bytes grid"
  by (simp add: grid_bytes_def sectors_of_def)

lemma getData_cylinders_ok:
  "ib + length (grid_bytes grid) \<le> length db \<Longrightarrow>
   getData_cylinders dbg grid ib db
     = Inr (ib + length (grid_bytes grid), splice db ib (map stored_byte (grid_bytes grid)))"
proof (induction grid arbitrary: ib db)
  case Nil
  show ?case by (simp add: grid_bytes_def sectors_of_def)
next
  case (Cons cyl grid)
  let ?xs = "concat (map sector_bytes (concat (map track_sectors cyl)))"
  let ?rest = "grid_bytes grid"
  from Cons.prems have le: "ib + length ?xs + length ?rest \<le> length db"
    by (simp add: grid_bytes_Cons)
  then have l1: "ib + length ?xs \<le> length db" by simp
  have l2: "ib + length (map stored_byte ?xs) \<le> length db" using l1 by simp
  have l3: "ib + length ?xs + length ?rest \<le> length (splice db ib (map stored_byte ?xs))"
    using le by (simp add: splice_length [OF l2])
  have sp: "splice (splice db ib (map stored_byte ?xs)) (ib + length ?xs) (map stored_byte ?rest)
              = splice db ib (map stored_byte ?xs @ map stored_byte ?rest)"
    using splice_append [OF l2, of "map stored_byte ?rest"] by simp
  show ?case
    using getData_heads_ok [OF l1, of dbg] Cons.IH [OF l3] sp
    by (simp add: grid_bytes_Cons add.assoc)
qed

lemma stored_byte_uint [simp]: "stored_byte (uint w) = w"
  by (simp add: stored_byte_def)

lemma map_stored_byte_uint [simp]: "map stored_byte (map uint ws) = ws"
  by (simp add: comp_def)

lemma restore_BPB_total:
  "(\<forall>i \<in> set offs. off + i < length db) \<Longrightarrow> \<exists>db'. restore_BPB saved off offs db = Inr db'"
proof (induction offs arbitrary: db)
  case Nil
  show ?case by simp
next
  case (Cons i offs)
  let ?db1 = "db[off + i := of_nat (if i < length saved then saved ! i else 0)]"
  from Cons.prems have "\<forall>i \<in> set offs. off + i < length ?db1" by simp
  from Cons.IH [OF this] obtain db' where "restore_BPB saved off offs ?db1 = Inr db'" ..
  moreover from Cons.prems have "off + i < length db" by simp
  ultimately show ?case by (cases "i < length saved") (simp_all add: writeUInt8_def BPB_JMP_OPCODE_def)
qed

text \<open>
  \<open>getData\<close> on a disk whose grid holds as many bytes as the buffer: the buffer receives the
  bytes of the grid and then the saved bytes at the offsets of the BPB.
\<close>

lemma getData_full:
  assumes "di_aDiskData this = Some grid" "di_abOrigBPB this = off # saved"
    and "length (grid_bytes grid) = length db" "off + 36 \<le> length db"
  shows "\<exists>db'. getData dbg this db = Inr (True, this\<lparr>di_abOrigBPB := saved\<rparr>, db')
           \<and> length db' = length db
           \<and> (\<forall>i < 36. db' ! (off + i) = saved_byte saved i)
           \<and> (\<forall>k. k < off \<or> off + 36 \<le> k
                  \<longrightarrow> db' ! k = map stored_byte (grid_bytes grid) ! k)"
proof -
  let ?db1 = "map stored_byte (grid_bytes grid)"
  from assms(3) have "0 + length (grid_bytes grid) \<le> length db" by simp
  from getData_cylinders_ok [OF this, of dbg]
  have c: "getData_cylinders dbg grid 0 db = Inr (length db, ?db1)"
    using assms(3) by (simp add: splice_all)
  have l1: "length ?db1 = length db" using assms(3) by simp
  have "\<forall>i \<in> set [0 ..< 36]. off + i < length ?db1" using assms(4) l1 by simp
  from restore_BPB_total [OF this] obtain db' where
    r: "restore_BPB saved off [0 ..< 36] ?db1 = Inr db'" ..
  from restore_BPB_effect [OF r] have
    e1: "length db' = length ?db1"
    and e2: "\<forall>i \<in> set [0 ..< 36]. db' ! (off + i) = saved_byte saved i"
    and e3: "\<forall>k. k \<notin> (\<lambda>i. off + i) ` set [0 ..< 36] \<longrightarrow> db' ! k = ?db1 ! k"
    by simp_all
  have g: "getData dbg this db = Inr (True, this\<lparr>di_abOrigBPB := saved\<rparr>, db')"
    unfolding getData_def bindE_def
    using assms(1,2) c r
    by (simp add: BPB_JMP_OPCODE_def BPB_LARGE_SECS_def assert_fails_def)
  have o: "\<forall>k. k < off \<or> off + 36 \<le> k \<longrightarrow> db' ! k = ?db1 ! k"
  proof (intro allI impI)
    fix k assume k: "k < off \<or> off + 36 \<le> k"
    have "k \<notin> (\<lambda>i. off + i) ` set [0 ..< 36]" using k by auto
    with e3 show "db' ! k = ?db1 ! k" by blast
  qed
  from g e1 l1 e2 o show ?thesis by auto
qed

section \<open>What buildDiskFromBuffer does before it builds the grid\<close>

lemma same_outside_refl [simp]: "same_outside off n db db"
  by (simp add: same_outside_def)

lemma same_outside_trans:
  "same_outside off n db db1 \<Longrightarrow> same_outside off n db1 db2 \<Longrightarrow> same_outside off n db db2"
  by (simp add: same_outside_def)

lemma same_outside_update:
  "off \<le> p \<Longrightarrow> p < off + n \<Longrightarrow> same_outside off n db (db[p := x])"
  by (auto simp add: same_outside_def)

lemma write_BPB_outside:
  "write_BPB db off row offs = Inr db' \<Longrightarrow> \<forall>i \<in> set offs. i < n \<Longrightarrow> same_outside off n db db'"
proof (induction offs arbitrary: db)
  case Nil
  then show ?case by simp
next
  case (Cons i offs)
  from Cons.prems(1) obtain db1 where
    w: "writeUInt8 db (case bpb_byte row i of None \<Rightarrow> 0 | Some v \<Rightarrow> v) (off + i) = Some db1"
    and r: "write_BPB db1 off row offs = Inr db'"
    by (auto simp add: ranged_def split: option.splits sum.splits)
  from w obtain x where d: "db1 = db[off + i := x]" by (auto simp add: writeUInt8_Some)
  from Cons.prems(2) have i: "off \<le> off + i" "off + i < off + n" and rest: "\<forall>i \<in> set offs. i < n" by simp_all
  have "same_outside off n db db1" unfolding d by (rule same_outside_update [OF i])
  moreover have "same_outside off n db1 db'" by (rule Cons.IH [OF r rest])
  ultimately show ?case by (rule same_outside_trans)
qed

lemma write_string_outside:
  "off \<le> p \<Longrightarrow> p + length chs \<le> off + n \<Longrightarrow> same_outside off n db (write_string db chs p)"
proof (induction chs arbitrary: db p)
  case Nil
  show ?case by simp
next
  case (Cons ch chs)
  let ?db1 = "if p < length db then db[p := of_nat ch] else db"
  from Cons.prems have a: "off \<le> p + 1" and b: "p + 1 + length chs \<le> off + n"
    and c: "p < off + n" by simp_all
  have "same_outside off n db ?db1"
    using same_outside_update [OF Cons.prems(1) c] by simp
  moreover have "same_outside off n ?db1 (write_string ?db1 chs (p + 1))"
    by (rule Cons.IH [OF a b])
  ultimately show ?case
    unfolding write_string.simps by (rule same_outside_trans)
qed

lemma bindE_Inr: "bindE m f = Inr r \<Longrightarrow> \<exists>v. m = Inr v \<and> f v = Inr r"
  by (cases m) (simp_all add: bindE_def)

lemma reconcile_BPB_effect:
  assumes "reconcile_BPB db off b0 b1 fHash force g = Inr (g1, db1, fm)"
  shows "same_outside off 36 db db1 \<and> g_physical g1 = g_physical g"
proof (cases "g_iBPB g \<ge> 0")
  case False
  with assms show ?thesis
    unfolding reconcile_BPB_def Let_def by (auto simp add: g_physical_def)
next
  case True
  let ?g1 = "g\<lparr>g_nLogicalSectorsPerTrack := g_nSectorsPerTrack g\<rparr>"
  have l: "\<forall>i \<in> set [a ..< BPB_LARGE_SECS + 4]. i < 36" for a
    by (simp add: BPB_LARGE_SECS_def)
  from assms True have "bindE (if g_bMediaIDBPB ?g1 = 0
                  then bindE (rd8 db (off + 512)) (\<lambda>b. Inr (?g1\<lparr>g_bMediaIDBPB := b\<rparr>))
                  else Inr ?g1) (\<lambda>g2.
           bindE (if g_iBPB g2 \<ge> 2 \<and> g_bMediaIDBPB g2 = MEDIA_320KB \<and> g_bMediaID g2 = MEDIA_360KB
                     \<or> g_bMediaIDBPB g2 = MEDIA_160KB \<and> g_bMediaID g2 = MEDIA_180KB
                  then bindE (bpb_row (g_iBPB g2 - 2)) (\<lambda>row.
                         Inr (g2\<lparr>g_iBPB := g_iBPB g2 - 2,
                                 g_bMediaID := the (bpb_byte row BPB_MEDIA_ID),
                                 g_nLogicalSectorsPerTrack := the (bpb_byte row BPB_TRACK_SECS)\<rparr>))
                  else Inr g2) (\<lambda>g3.
           bindE (bpb_row (g_iBPB g3)) (\<lambda>row.
           bindE (if g_fBPBExists g3
                  then verify_BPB db off row [BPB_SECTOR_BYTES ..< BPB_HIDDEN_SECS + 2]
                  else Inr False) (\<lambda>fBPBWarning.
             if \<not> g_fBPBExists g3 \<or> fBPBWarning then
               (if b0 = OPCODE_JMPS \<and> b1 \<ge> 0x22 \<or> force then
                  bindE (write_BPB db off row
                           [(if force then 0 else BPB_SECTOR_BYTES) ..< BPB_LARGE_SECS + 4]) (\<lambda>db'.
                    Inr (g3, db', fHash))
                else if b0 = 0xF6 \<and> b1 = 0xF6 \<and> g_bMediaIDBPB g3 > 0xF8 then
                  bindE (write_BPB db off row [0 ..< BPB_LARGE_SECS + 4]) (\<lambda>db'.
                    Inr (g3, db', False))
                else Inr (g3, db, False))
             else Inr (g3, db, False))))) = Inr (g1, db1, fm)"
    unfolding reconcile_BPB_def Let_def by simp
  from bindE_Inr [OF this] obtain g2 where
    s2: "(if g_bMediaIDBPB ?g1 = 0
                  then bindE (rd8 db (off + 512)) (\<lambda>b. Inr (?g1\<lparr>g_bMediaIDBPB := b\<rparr>))
                  else Inr ?g1) = Inr g2"
    and r2: "bindE (if g_iBPB g2 \<ge> 2 \<and> g_bMediaIDBPB g2 = MEDIA_320KB \<and> g_bMediaID g2 = MEDIA_360KB
                     \<or> g_bMediaIDBPB g2 = MEDIA_160KB \<and> g_bMediaID g2 = MEDIA_180KB
                  then bindE (bpb_row (g_iBPB g2 - 2)) (\<lambda>row.
                         Inr (g2\<lparr>g_iBPB := g_iBPB g2 - 2,
                                 g_bMediaID := the (bpb_byte row BPB_MEDIA_ID),
                                 g_nLogicalSectorsPerTrack := the (bpb_byte row BPB_TRACK_SECS)\<rparr>))
                  else Inr g2) (\<lambda>g3.
           bindE (bpb_row (g_iBPB g3)) (\<lambda>row.
           bindE (if g_fBPBExists g3
                  then verify_BPB db off row [BPB_SECTOR_BYTES ..< BPB_HIDDEN_SECS + 2]
                  else Inr False) (\<lambda>fBPBWarning.
             if \<not> g_fBPBExists g3 \<or> fBPBWarning then
               (if b0 = OPCODE_JMPS \<and> b1 \<ge> 0x22 \<or> force then
                  bindE (write_BPB db off row
                           [(if force then 0 else BPB_SECTOR_BYTES) ..< BPB_LARGE_SECS + 4]) (\<lambda>db'.
                    Inr (g3, db', fHash))
                else if b0 = 0xF6 \<and> b1 = 0xF6 \<and> g_bMediaIDBPB g3 > 0xF8 then
                  bindE (write_BPB db off row [0 ..< BPB_LARGE_SECS + 4]) (\<lambda>db'.
                    Inr (g3, db', False))
                else Inr (g3, db, False))
             else Inr (g3, db, False)))) = Inr (g1, db1, fm)"
    by blast
  from s2 have p2: "g_physical g2 = g_physical g"
    by (auto simp add: g_physical_def bindE_def split: if_splits sum.splits)
  from bindE_Inr [OF r2] obtain g3 where
    s3: "(if g_iBPB g2 \<ge> 2 \<and> g_bMediaIDBPB g2 = MEDIA_320KB \<and> g_bMediaID g2 = MEDIA_360KB
                     \<or> g_bMediaIDBPB g2 = MEDIA_160KB \<and> g_bMediaID g2 = MEDIA_180KB
                  then bindE (bpb_row (g_iBPB g2 - 2)) (\<lambda>row.
                         Inr (g2\<lparr>g_iBPB := g_iBPB g2 - 2,
                                 g_bMediaID := the (bpb_byte row BPB_MEDIA_ID),
                                 g_nLogicalSectorsPerTrack := the (bpb_byte row BPB_TRACK_SECS)\<rparr>))
                  else Inr g2) = Inr g3"
    and r3: "bindE (bpb_row (g_iBPB g3)) (\<lambda>row.
           bindE (if g_fBPBExists g3
                  then verify_BPB db off row [BPB_SECTOR_BYTES ..< BPB_HIDDEN_SECS + 2]
                  else Inr False) (\<lambda>fBPBWarning.
             if \<not> g_fBPBExists g3 \<or> fBPBWarning then
               (if b0 = OPCODE_JMPS \<and> b1 \<ge> 0x22 \<or> force then
                  bindE (write_BPB db off row
                           [(if force then 0 else BPB_SECTOR_BYTES) ..< BPB_LARGE_SECS + 4]) (\<lambda>db'.
                    Inr (g3, db', fHash))
                else if b0 = 0xF6 \<and> b1 = 0xF6 \<and> g_bMediaIDBPB g3 > 0xF8 then
                  bindE (write_BPB db off row [0 ..< BPB_LARGE_SECS + 4]) (\<lambda>db'.
                    Inr (g3, db', False))
                else Inr (g3, db, False))
             else Inr (g3, db, False))) = Inr (g1, db1, fm)"
    by blast
  have p3: "g_physical g3 = g_physical g"
  proof (cases "g_iBPB g2 \<ge> 2 \<and> g_bMediaIDBPB g2 = MEDIA_320KB \<and> g_bMediaID g2 = MEDIA_360KB
                     \<or> g_bMediaIDBPB g2 = MEDIA_160KB \<and> g_bMediaID g2 = MEDIA_180KB")
    case True
    from s3 [unfolded if_P [OF True]] bindE_Inr obtain row where
      "g3 = g2\<lparr>g_iBPB := g_iBPB g2 - 2,
                                 g_bMediaID := the (bpb_byte row BPB_MEDIA_ID),
                                 g_nLogicalSectorsPerTrack := the (bpb_byte row BPB_TRACK_SECS)\<rparr>"
      by fastforce
    then show ?thesis using p2 by (simp add: g_physical_def)
  next
    case False
    from s3 [unfolded if_not_P [OF False]] p2 show ?thesis by simp
  qed
  from bindE_Inr [OF r3] obtain row where
    r4: "bindE (if g_fBPBExists g3
                  then verify_BPB db off row [BPB_SECTOR_BYTES ..< BPB_HIDDEN_SECS + 2]
                  else Inr False) (\<lambda>fBPBWarning.
             if \<not> g_fBPBExists g3 \<or> fBPBWarning then
               (if b0 = OPCODE_JMPS \<and> b1 \<ge> 0x22 \<or> force then
                  bindE (write_BPB db off row
                           [(if force then 0 else BPB_SECTOR_BYTES) ..< BPB_LARGE_SECS + 4]) (\<lambda>db'.
                    Inr (g3, db', fHash))
                else if b0 = 0xF6 \<and> b1 = 0xF6 \<and> g_bMediaIDBPB g3 > 0xF8 then
                  bindE (write_BPB db off row [0 ..< BPB_LARGE_SECS + 4]) (\<lambda>db'.
                    Inr (g3, db', False))
                else Inr (g3, db, False))
             else Inr (g3, db, False)) = Inr (g1, db1, fm)"
    by blast
  from bindE_Inr [OF r4] obtain w where
    r5: "(if \<not> g_fBPBExists g3 \<or> w then
               (if b0 = OPCODE_JMPS \<and> b1 \<ge> 0x22 \<or> force then
                  bindE (write_BPB db off row
                           [(if force then 0 else BPB_SECTOR_BYTES) ..< BPB_LARGE_SECS + 4]) (\<lambda>db'.
                    Inr (g3, db', fHash))
                else if b0 = 0xF6 \<and> b1 = 0xF6 \<and> g_bMediaIDBPB g3 > 0xF8 then
                  bindE (write_BPB db off row [0 ..< BPB_LARGE_SECS + 4]) (\<lambda>db'.
                    Inr (g3, db', False))
                else Inr (g3, db, False))
             else Inr (g3, db, False)) = Inr (g1, db1, fm)"
    by blast
  have "g1 = g3 \<and> same_outside off 36 db db1"
  proof (cases "\<not> g_fBPBExists g3 \<or> w")
    case False
    from r5 [unfolded if_not_P [OF False]] show ?thesis by simp
  next
    case c1: True
    show ?thesis
    proof (cases "b0 = OPCODE_JMPS \<and> b1 \<ge> 0x22 \<or> force")
      case True
      from bindE_Inr [OF r5 [unfolded if_P [OF c1] if_P [OF True]]] obtain db' where
        "write_BPB db off row [(if force then 0 else BPB_SECTOR_BYTES) ..< BPB_LARGE_SECS + 4] = Inr db'"
        and "g1 = g3" "db1 = db'" by auto
      with write_BPB_outside [OF _ l] show ?thesis by simp
    next
      case c2: False
      show ?thesis
      proof (cases "b0 = 0xF6 \<and> b1 = 0xF6 \<and> g_bMediaIDBPB g3 > 0xF8")
        case True
        from bindE_Inr [OF r5 [unfolded if_P [OF c1] if_not_P [OF c2] if_P [OF True]]] obtain db' where
          "write_BPB db off row [0 ..< BPB_LARGE_SECS + 4] = Inr db'"
          and "g1 = g3" "db1 = db'" by auto
        with write_BPB_outside [OF _ l] show ?thesis by simp
      next
        case False
        from r5 [unfolded if_P [OF c1] if_not_P [OF c2] if_not_P [OF False]] show ?thesis by simp
      qed
    qed
  qed
  with p3 show ?thesis by simp
qed

lemma update_OEM_effect:
  assumes "update_OEM db off fB fHash force = Inr (db1, fm)"
  shows "same_outside off 36 db db1"
proof -
  have "same_outside off 36 db (write_string db PCJS_OEM (BPB_OEM_STRING + off))"
    by (rule write_string_outside) (simp_all add: PCJS_OEM_def BPB_OEM_STRING_def)
  with assms show ?thesis
    unfolding update_OEM_def bindE_def
    by (auto split: sum.splits if_splits)
qed

lemma GEOMETRIES_props:
  assumes "GEOMETRIES n = Some (c, h, s, cbo, m)"
  shows "h \<noteq> 0" and "c * h * s * table_cbSector cbo = n"
    and "4 dvd table_cbSector cbo" and "0 < table_cbSector cbo"
  using assms unfolding GEOMETRIES_def table_cbSector_def
  by (auto split: if_splits)

lemma resolve_geometry_table:
  assumes "resolve_geometry db off b0 cbBPB = Inr g"
    and "GEOMETRIES (length db) = Some (c, h, s, cbo, m)"
  shows "g_physical g = (c, h, s, table_cbSector cbo)"
  using assms unfolding resolve_geometry_def Let_def bindE_def g_physical_def table_cbSector_def
  by (auto split: sum.splits if_splits)

lemma read_DSK_header_skip:
  "read_DSK_header db off b0 g = Inr (g2, aTracks) \<Longrightarrow> g_nHeads g \<noteq> 0 \<Longrightarrow> g2 = g \<and> aTracks = []"
  by (simp add: read_DSK_header_def)

lemma read_bytes_Inr:
  "read_bytes db off n = Inr bs \<Longrightarrow> 0 < n \<Longrightarrow>
   off + n \<le> length db \<and> bs = map unat (take n (drop off db))"
  by (auto simp add: read_bytes_def split: if_splits)

lemma prepare_buffer_table:
  assumes "prepare_buffer this B hash force = Inr (off, g, aTracks, B1, this1)"
    and "GEOMETRIES (length B) = Some (c, h, s, cbo, m)"
  shows "same_outside off 36 B B1" and "g_physical g = (c, h, s, table_cbSector cbo)"
    and "aTracks = []" and "off + 36 \<le> length B"
    and "di_abOrigBPB this1 = off # map unat (take 36 (drop off B))"
proof -
  from assms(1) obtain b0 b1 cbS abBPB g0 iBPB g1 db1 fm1 fm2 where
    rb: "read_bytes B off (BPB_LARGE_SECS + 4) = Inr abBPB"
    and rg: "resolve_geometry B off b0 cbS = Inr g0"
    and rc: "reconcile_BPB B off b0 b1 (hash \<noteq> []) force (g0\<lparr>g_iBPB := iBPB\<rparr>) = Inr (g1, db1, fm1)"
    and uo: "update_OEM db1 off (g_fBPBExists g1) (hash \<noteq> []) force = Inr (B1, fm2)"
    and dh: "read_DSK_header B1 off b0 g1 = Inr (g, aTracks)"
    and t1: "di_abOrigBPB this1 = off # abBPB"
    unfolding prepare_buffer_def Let_def bindE_def
    by (auto split: sum.splits prod.splits)
  from read_bytes_Inr [OF rb] have le: "off + 36 \<le> length B"
    and ab: "abBPB = map unat (take 36 (drop off B))"
    by (simp_all add: BPB_LARGE_SECS_def)
  from resolve_geometry_table [OF rg assms(2)]
  have p0: "g_physical (g0\<lparr>g_iBPB := iBPB\<rparr>) = (c, h, s, table_cbSector cbo)"
    by (simp add: g_physical_def)
  from reconcile_BPB_effect [OF rc] p0
  have so1: "same_outside off 36 B db1" and p1: "g_physical g1 = (c, h, s, table_cbSector cbo)"
    by simp_all
  from p1 GEOMETRIES_props(1) [OF assms(2)] have "g_nHeads g1 \<noteq> 0" by (simp add: g_physical_def)
  from read_DSK_header_skip [OF dh this] have gg: "g = g1" and at: "aTracks = []" by simp_all
  show "same_outside off 36 B B1"
    using so1 update_OEM_effect [OF uo] by (rule same_outside_trans)
  show "g_physical g = (c, h, s, table_cbSector cbo)" using p1 gg by simp
  show "aTracks = []" by (rule at)
  show "off + 36 \<le> length B" by (rule le)
  show "di_abOrigBPB this1 = off # map unat (take 36 (drop off B))" using t1 ab by simp
qed

section \<open>Building from a buffer and serialising again\<close>



lemma buildDiskFromBuffer_table:
  assumes "prepare_buffer this B hash force = Inr (off, g, aTracks, B1, this1)"
    and "GEOMETRIES (length B) = Some (c, h, s, cbo, m)"
    and "g_nLogicalSectorsPerTrack g \<le> s"
  shows "\<exists>grid disk. buildDiskFromBuffer this B hash force = Inr (True, disk, B1)
           \<and> di_aDiskData disk = Some grid
           \<and> di_abOrigBPB disk = off # map unat (take 36 (drop off B))
           \<and> di_fBPBModified disk = di_fBPBModified this1
           \<and> grid_bytes grid
               = map uint (track_data B1 0 (s * table_cbSector cbo)
                   (g_nLogicalSectorsPerTrack g * table_cbSector cbo) (c * h))"
proof -
  let ?cb = "table_cbSector cbo"
  let ?L = "g_nLogicalSectorsPerTrack g"
  note pt = prepare_buffer_table [OF assms(1,2)]
  note gp = GEOMETRIES_props [OF assms(2)]
  from pt(2) have gc: "g_nCylinders g = c" and gh: "g_nHeads g = h"
    and gs: "g_nSectorsPerTrack g = s" and gb: "g_cbSector g = ?cb"
    by (simp_all add: g_physical_def)
  from pt(1) have l1: "length B1 = length B" by (simp add: same_outside_def)
  let ?this2 = "this1\<lparr>di_aDiskData := Some [],
                       di_hash := (if hash \<noteq> [] then hash else di_hash this1),
                       di_nCylinders := g_nCylinders g\<rparr>"
  let ?st = "\<lparr>ls_disk = ?this2, ls_bMediaID = g_bMediaID g, ls_iTrack = 0,
              ls_nSectorsPerTrack = g_nSectorsPerTrack g,
              ls_nLogicalSectorsPerTrack = g_nLogicalSectorsPerTrack g,
              ls_cbSector = g_cbSector g,
              ls_cbTrack = g_nSectorsPerTrack g * g_cbSector g,
              ls_offTrack = 0, ls_offHead = 0\<rparr>"
  have a1: "ls_cbSector ?st = ?cb" by (simp add: gb)
  have a4: "ls_cbTrack ?st = s * ?cb" by (simp add: gs gb)
  have a5: "ls_nLogicalSectorsPerTrack ?st = ?L" by simp
  have a6: "?L * ?cb \<le> s * ?cb" using assms(3) by simp
  have a7: "ls_offTrack ?st + c * h * (s * ?cb) \<le> length B1"
    using gp(2) l1 by (simp add: mult.assoc)
  have a8: "di_dwChecksum (ls_disk ?st) = Some 0"
    using prepare_buffer_checksum [OF assms(1)] by simp
  from build_cylinders_content [OF a1 gp(4) gp(3) a4 a5 a6 a7 a8, of off 0]
  obtain grid st' where
    bc: "build_cylinders B1 [] off h c 0 ?st = Inr (grid, st')"
    and gb': "grid_bytes grid = map uint (track_data B1 0 (s * ?cb) (?L * ?cb) (c * h))"
    by auto
  from build_cylinders_checksum [OF bc a8]
  have "di_fixed (ls_disk st') = di_fixed (ls_disk ?st)" by simp
  then have ob: "di_abOrigBPB (ls_disk st') = di_abOrigBPB this1"
    and fm: "di_fBPBModified (ls_disk st') = di_fBPBModified this1"
    by (simp_all add: di_fixed_def)
  have run: "buildDiskFromBuffer this B hash force
               = Inr (True, (ls_disk st')\<lparr>di_aDiskData := Some grid\<rparr>, B1)"
    unfolding buildDiskFromBuffer_def
    using assms(1) bc gp(1) by (simp add: bindE_def Let_def gh gc pt(3))
  show ?thesis
    using run gb' ob fm pt(5) by simp
qed

lemma saved_byte_original:
  assumes "off + 36 \<le> length B" "i < 36"
  shows "saved_byte (map unat (take 36 (drop off B))) i = B ! (off + i)"
  using assms by (simp add: saved_byte_def)

lemma round_trip_table:
  assumes "GEOMETRIES (length B) = Some (c, h, s, cbo, m)"
    and "prepare_buffer this B hash forceBPB = Inr (off, g, aTracks, B1, this1)"
    and "g_nLogicalSectorsPerTrack g = g_nSectorsPerTrack g"
    and "length B' = length B"
  shows "\<exists>disk grid. buildDiskFromBuffer this B hash forceBPB = Inr (True, disk, B1)
           \<and> di_aDiskData disk = Some grid \<and> grid_bytes grid = map uint B1
           \<and> di_abOrigBPB disk = off # map unat (take 36 (drop off B))
           \<and> getData dbg disk B'
               = Inr (True, disk\<lparr>di_abOrigBPB := map unat (take 36 (drop off B))\<rparr>, B)"
proof -
  let ?cb = "table_cbSector cbo"
  let ?saved = "map unat (take 36 (drop off B))"
  note pt = prepare_buffer_table [OF assms(2,1)]
  note gp = GEOMETRIES_props [OF assms(1)]
  from pt(2) have gs: "g_nSectorsPerTrack g = s" by (simp add: g_physical_def)
  from pt(1) have l1: "length B1 = length B"
    and o1: "\<forall>k. k < off \<or> off + 36 \<le> k \<longrightarrow> B1 ! k = B ! k"
    by (simp_all add: same_outside_def)
  have Ls: "g_nLogicalSectorsPerTrack g \<le> s" using assms(3) gs by simp
  from buildDiskFromBuffer_table [OF assms(2,1) Ls] obtain grid disk where
    run: "buildDiskFromBuffer this B hash forceBPB = Inr (True, disk, B1)"
    and dg: "di_aDiskData disk = Some grid"
    and ob: "di_abOrigBPB disk = off # ?saved"
    and gb: "grid_bytes grid = map uint (track_data B1 0 (s * ?cb) (s * ?cb) (c * h))"
    using assms(3) gs by auto
  have "track_data B1 0 (s * ?cb) (s * ?cb) (c * h) = take (c * h * (s * ?cb)) (drop 0 B1)"
    by (rule track_data_full)
  also have "\<dots> = B1" using gp(2) l1 by (simp add: mult.assoc)
  finally have gb1: "grid_bytes grid = map uint B1" using gb by simp
  have lg: "length (grid_bytes grid) = length B'" using gb1 l1 assms(4) by simp
  have le: "off + 36 \<le> length B'" using pt(4) assms(4) by simp
  from getData_full [OF dg ob lg le, of dbg] obtain out where
    gd: "getData dbg disk B' = Inr (True, disk\<lparr>di_abOrigBPB := ?saved\<rparr>, out)"
    and lo: "length out = length B'"
    and sv: "\<forall>i < 36. out ! (off + i) = saved_byte ?saved i"
    and ot: "\<forall>k. k < off \<or> off + 36 \<le> k \<longrightarrow> out ! k = map stored_byte (grid_bytes grid) ! k"
    by blast
  have "out = B"
  proof (rule nth_equalityI)
    show "length out = length B" using lo assms(4) by simp
    fix k assume "k < length out"
    show "out ! k = B ! k"
    proof (cases "k < off \<or> off + 36 \<le> k")
      case True
      with ot have "out ! k = map stored_byte (grid_bytes grid) ! k" by blast
      also have "\<dots> = B1 ! k" unfolding gb1 map_stored_byte_uint ..
      also have "\<dots> = B ! k" using o1 True by blast
      finally show ?thesis .
    next
      case False
      then obtain i where i: "i < 36" and k: "k = off + i"
        by (metis add_diff_inverse_nat less_diff_conv2 not_le nat_add_left_cancel_less)
      from sv i have "out ! (off + i) = saved_byte ?saved i" by blast
      also have "\<dots> = B ! (off + i)" by (rule saved_byte_original [OF pt(4) i])
      finally show ?thesis by (simp add: k)
    qed
  qed
  with run gd dg gb1 ob show ?thesis by blast
qed

section \<open>Evaluation of the example images\<close>




lemmas eval_prepare = find_boot_sector_def rd8_def rd16_def ranged_def readUInt8_def
  readUInt16LE_def read_bytes_def resolve_geometry_def GEOMETRIES_def OPCODE_JMP_def
  OPCODE_JMPS_def aDefaultBPBs_def bpb_def bpb_byte_def bpb_row_def BPB_MEDIA_ID_def
  BPB_TOTAL_SECS_def BPB_JMP_OPCODE_def BPB_SECTOR_BYTES_def BPB_LARGE_SECS_def
  BPB_TRACK_SECS_def upt_conv_Cons bindE_def reconcile_BPB_def update_OEM_def
  read_DSK_header_def MEDIA_320KB_def MEDIA_360KB_def MEDIA_160KB_def MEDIA_180KB_def Let_def





lemma c10_image_nth:
  "length c10_image = 163840"
  "k < 163840 \<Longrightarrow> c10_image ! k = (if k = 1 then 7 else 0)"
  by (simp_all add: c10_image_def)

lemma saved_split:
  "B \<noteq> [] \<Longrightarrow> map unat (take 36 (drop 0 B)) = unat (B ! 0) # map unat (take 35 (drop 1 B))"
  by (cases B) simp_all

lemma c10_image_prepare:
  "prepare_buffer (new_DiskImage False) c10_image [] False
     = Inr (0, \<lparr>g_nCylinders = 40, g_nHeads = 1, g_nSectorsPerTrack = 8,
                g_nLogicalSectorsPerTrack = 8, g_cbSector = 512, g_bMediaID = 0xFE,
                g_fBPBExists = False, g_bMediaIDBPB = 0, g_iBPB = 0\<rparr>, [], c10_image,
            (new_DiskImage False)\<lparr>di_aDiskData := None, di_cbDiskData := 0,
               di_dwChecksum := Some 0, di_abOrigBPB := 0 # map unat (take 36 (drop 0 c10_image)),
               di_fBPBModified := False\<rparr>)"
  unfolding prepare_buffer_def
  by (simp add: eval_prepare c10_image_nth)






section \<open>Claim C1: the round trip through a disk\<close>




section \<open>Two calls of getData\<close>


lemma c10_image_bytes:
  "map unat (take 36 (drop 0 c10_image)) = 0 # 7 # replicate 34 0"
proof (rule nth_equalityI)
  show "length (map unat (take 36 (drop 0 c10_image))) = length (0 # 7 # replicate 34 (0::nat))"
    by (simp add: c10_image_nth)
  fix i assume "i < length (map unat (take 36 (drop 0 c10_image)))"
  then have i: "i < 36" by simp
  then have "i < 163840" by simp
  from c10_image_nth(2) [OF this] i
  have l: "map unat (take 36 (drop 0 c10_image)) ! i = (if i = 1 then 7 else 0)"
    by (simp add: c10_image_nth(1))
  have r: "(0 # 7 # replicate 34 (0::nat)) ! i = (if i = 1 then 7 else 0)"
    using i by (auto simp add: nth_Cons')
  show "map unat (take 36 (drop 0 c10_image)) ! i = (0 # 7 # replicate 34 0) ! i"
    unfolding l r ..
qed

lemma c10_disk_built:
  "buildDiskFromBuffer (new_DiskImage False) c10_image [] False = Inr (True, c10_disk, c10_image)"
  "di_abOrigBPB c10_disk = 0 # 0 # 7 # replicate 34 0"
  "\<exists>grid. di_aDiskData c10_disk = Some grid \<and> grid_bytes grid = map uint c10_image"
  "getData dbg c10_disk (replicate 163840 0)
     = Inr (True, c10_disk\<lparr>di_abOrigBPB := 0 # 7 # replicate 34 0\<rparr>, c10_image)"
proof -
  have geo: "GEOMETRIES (length c10_image) = Some (40, 1, 8, None, Some 0xFE)"
    by (simp add: c10_image_nth GEOMETRIES_def)
  have len: "length (replicate 163840 0 :: DataBuffer) = length c10_image"
    by (simp add: c10_image_nth)
  from round_trip_table [OF geo c10_image_prepare _ len, of dbg] obtain disk grid where
    run: "buildDiskFromBuffer (new_DiskImage False) c10_image [] False = Inr (True, disk, c10_image)"
    and dg: "di_aDiskData disk = Some grid" and gb: "grid_bytes grid = map uint c10_image"
    and ob: "di_abOrigBPB disk = 0 # map unat (take 36 (drop 0 c10_image))"
    and gd: "getData dbg disk (replicate 163840 0)
               = Inr (True, disk\<lparr>di_abOrigBPB := map unat (take 36 (drop 0 c10_image))\<rparr>, c10_image)"
    by auto
  have d: "c10_disk = disk" by (simp add: c10_disk_def run)
  show "buildDiskFromBuffer (new_DiskImage False) c10_image [] False
          = Inr (True, c10_disk, c10_image)"
    unfolding d by (rule run)
  show "di_abOrigBPB c10_disk = 0 # 0 # 7 # replicate 34 0"
    unfolding d ob c10_image_bytes ..
  show "\<exists>grid. di_aDiskData c10_disk = Some grid \<and> grid_bytes grid = map uint c10_image"
    unfolding d using dg gb by blast
  show "getData dbg c10_disk (replicate 163840 0)
          = Inr (True, c10_disk\<lparr>di_abOrigBPB := 0 # 7 # replicate 34 0\<rparr>, c10_image)"
    unfolding d using gd [unfolded c10_image_bytes] .
qed

lemma c10_second_call:
  "getData dbg (c10_disk\<lparr>di_abOrigBPB := 0 # 7 # replicate 34 0\<rparr>) (replicate 163840 0)
     = Inr (True, c10_disk\<lparr>di_abOrigBPB := 7 # replicate 34 0\<rparr>, (replicate 163840 0)[0 := 7])"
proof -
  let ?dk = "c10_disk\<lparr>di_abOrigBPB := 0 # 7 # replicate 34 0\<rparr>"
  let ?db = "replicate 163840 0 :: DataBuffer"
  let ?saved = "7 # replicate 34 (0::nat)"
  from c10_disk_built(3) obtain grid where
    dg: "di_aDiskData ?dk = Some grid" and gb: "grid_bytes grid = map uint c10_image"
    by auto
  have ob: "di_abOrigBPB ?dk = 0 # ?saved" by simp
  have lg: "length (grid_bytes grid) = length ?db" by (simp add: gb c10_image_nth)
  have l36: "0 + 36 \<le> length ?db" by simp
  from getData_full [OF dg ob lg l36, of dbg] obtain out where
    gd: "getData dbg ?dk ?db = Inr (True, ?dk\<lparr>di_abOrigBPB := ?saved\<rparr>, out)"
    and lo: "length out = 163840"
    and sv: "\<forall>i < 36. out ! (0 + i) = saved_byte ?saved i"
    and ot: "\<forall>k. k < 0 \<or> 0 + 36 \<le> k \<longrightarrow> out ! k = map stored_byte (grid_bytes grid) ! k"
    by auto
  have "out = (replicate 163840 0)[0 := 7]"
  proof (rule nth_equalityI)
    show "length out = length ((replicate 163840 0)[0 := 7 :: 8 word])" using lo by simp
    fix k assume "k < length out"
    then have k: "k < 163840" using lo by simp
    show "out ! k = (replicate 163840 0)[0 := 7] ! k"
    proof (cases "k < 36")
      case True
      from sv True have "out ! k = saved_byte ?saved k" by simp
      also have "\<dots> = (if k = 0 then 7 else 0)"
        using True by (auto simp add: saved_byte_def nth_Cons')
      finally show ?thesis using k by (simp add: nth_list_update)
    next
      case False
      with ot have "out ! k = map stored_byte (grid_bytes grid) ! k" by simp
      also have "\<dots> = c10_image ! k" unfolding gb map_stored_byte_uint ..
      also have "\<dots> = 0" using False k by (simp add: c10_image_nth)
      finally show ?thesis using False k by (simp add: nth_list_update)
    qed
  qed
  with gd show ?thesis by simp
qed

lemma getData_twice:
  assumes "di_aDiskData this = Some grid" and "di_abOrigBPB this = off # b0 # saved"
    and "getData dbg this db = Inr (r1, this1, db1)"
    and "getData dbg this1 db' = Inr (r2, this2, db2)"
  shows "di_abOrigBPB this1 = b0 # saved \<and>
         (\<forall>i < 36. db1 ! (off + i) = saved_byte (b0 # saved) i) \<and>
         di_abOrigBPB this2 = saved \<and>
         (\<forall>i < 36. db2 ! (b0 + i) = saved_byte saved i) \<and>
         (\<forall>i. saved_byte saved i = saved_byte (b0 # saved) (i + 1))"
proof -
  have dist: "distinct [0 ..< 36 :: nat]" by simp
  from getData_Inr [OF assms(3,1,2)] obtain ib dbm where
    r1: "restore_BPB (b0 # saved) off [0 ..< 36] dbm = Inr db1"
    and t1: "this1 = this\<lparr>di_abOrigBPB := b0 # saved\<rparr>"
    by blast
  from restore_BPB_effect [OF r1 dist]
  have e1: "\<forall>i < 36. db1 ! (off + i) = saved_byte (b0 # saved) i" by simp
  have dg1: "di_aDiskData this1 = Some grid" and ob1: "di_abOrigBPB this1 = b0 # saved"
    using assms(1) by (simp_all add: t1)
  from getData_Inr [OF assms(4) dg1 ob1] obtain ib' dbm' where
    r2: "restore_BPB saved b0 [0 ..< 36] dbm' = Inr db2"
    and t2: "this2 = this1\<lparr>di_abOrigBPB := saved\<rparr>"
    by blast
  from restore_BPB_effect [OF r2 dist]
  have e2: "\<forall>i < 36. db2 ! (b0 + i) = saved_byte saved i" by simp
  have e3: "\<forall>i. saved_byte saved i = saved_byte (b0 # saved) (i + 1)"
    by (simp add: saved_byte_def)
  from ob1 e1 t2 e2 e3 show ?thesis by simp
qed

section \<open>Claim C10: getData is not repeatable\<close>

text \<open>
  Claim C10.  \<open>getData\<close> is not repeatable.  On a disk that has data and whose saved array
  \<open>abOrigBPB\<close> is the offset \<open>off\<close> of the boot sector followed by the saved bytes \<open>b0, saved\<close>, a
  successful call writes the saved bytes at \<open>off + i\<close> and removes the leading element, so that
  the array now starts with the first saved byte \<open>b0\<close>.  A second successful call therefore
  takes \<open>b0\<close> for the offset: it writes at \<open>b0 + i\<close> the element that follows, which is the saved
  byte of offset \<open>i + 1\<close> (and \<open>0\<close> when the array has no such element), and removes \<open>b0\<close> in turn.
  The witness below runs both calls on the disk built from \<open>c10_image\<close>, into zero-filled
  buffers of equal size: the first call returns the image, with the byte \<open>7\<close> at offset 1; the
  second returns it with that byte at offset 0 instead.
\<close>

theorem getData_not_repeatable:
  assumes "di_aDiskData this = Some grid" and "di_abOrigBPB this = off # b0 # saved"
    and "getData dbg this db = Inr (r1, this1, db1)"
    and "getData dbg this1 db' = Inr (r2, this2, db2)"
  shows "di_abOrigBPB this1 = b0 # saved \<and>
         (\<forall>i < 36. db1 ! (off + i) = saved_byte (b0 # saved) i) \<and>
         di_abOrigBPB this2 = saved \<and>
         (\<forall>i < 36. db2 ! (b0 + i) = saved_byte saved i) \<and>
         (\<forall>i. saved_byte saved i = saved_byte (b0 # saved) (i + 1))"
  using assms by (rule getData_twice)

theorem getData_not_repeatable_witness:
  "buildDiskFromBuffer (new_DiskImage False) c10_image [] False
     = Inr (True, c10_disk, c10_image) \<and>
   di_abOrigBPB c10_disk = 0 # 0 # 7 # replicate 34 0 \<and>
   getData False c10_disk (replicate 163840 0)
     = Inr (True, c10_disk\<lparr>di_abOrigBPB := 0 # 7 # replicate 34 0\<rparr>, c10_image) \<and>
   getData False (c10_disk\<lparr>di_abOrigBPB := 0 # 7 # replicate 34 0\<rparr>) (replicate 163840 0)
     = Inr (True, c10_disk\<lparr>di_abOrigBPB := 7 # replicate 34 0\<rparr>,
            (replicate 163840 0)[0 := 7]) \<and>
   c10_image ! 0 = 0 \<and> c10_image ! 1 = 7 \<and>
   (replicate 163840 0)[0 := 7] ! (0 + 0) = saved_byte (7 # replicate 34 0) 0 \<and>
   saved_byte (7 # replicate 34 0) 0 = 7 \<and>
   di_abOrigBPB (c10_disk\<lparr>di_abOrigBPB := 7 # replicate 34 0\<rparr>) = 7 # replicate 34 0"
proof -
  from c10_disk_built(3) obtain grid where dg: "di_aDiskData c10_disk = Some grid" by blast
  note t = getData_not_repeatable
    [OF dg c10_disk_built(2) c10_disk_built(4) [of False] c10_second_call [of False]]
  from t have q: "\<forall>i < 36. (replicate 163840 0)[0 := 7] ! (0 + i)
                    = saved_byte (7 # replicate 34 0) i"
    by blast
  have z: "(0::nat) < 36" by simp
  from q z have a: "(replicate 163840 0)[0 := 7] ! (0 + 0) = saved_byte (7 # replicate 34 0) 0"
    by blast
  from t have b: "di_abOrigBPB (c10_disk\<lparr>di_abOrigBPB := 7 # replicate 34 0\<rparr>)
                    = 7 # replicate 34 0"
    by blast
  have c: "c10_image ! 0 = 0" "c10_image ! 1 = 7" by (simp_all add: c10_image_nth)
  have d: "saved_byte (7 # replicate 34 0) 0 = 7" by (simp add: saved_byte_def)
  from c10_disk_built(1,2) c10_disk_built(4) [of False] c10_second_call [of False] a b c d
  show ?thesis by simp
qed

section \<open>Parsing the example PSI file\<close>


lemma c8_crc:
  "getCRC c8_stream 0 12 0 = Inr 0xF2EDB0A5"
  "getCRC c8_stream 16 16 0 = Inr 0xE390222E"
  "getCRC c8_stream 36 8 0 = Inr 0x3D64AF78"
  by code_simp+

lemma c8_reads:
  "rd32BE c8_stream 0 = Inr CHUNK_PSI" "rd32BE c8_stream 4 = Inr 4"
  "rd32BE c8_stream 16 = Inr CHUNK_SECT" "rd32BE c8_stream 20 = Inr 8"
  "rd32BE c8_stream 36 = Inr CHUNK_END" "rd32BE c8_stream 40 = Inr 0"
  "ranged (readInt32BE c8_stream 12) = Inr 0xF2EDB0A5"
  "ranged (readInt32BE c8_stream 32) = Inr 0xE390222E"
  "ranged (readInt32BE c8_stream 44) = Inr 0x3D64AF78"
  by (simp_all add: rd32BE_def ranged_def readUInt32BE_def readInt32BE_def c8_stream_def le32_def
        CHUNK_PSI_def CHUNK_SECT_def CHUNK_END_def)

lemma c8_slices:
  "slice c8_stream 8 12 = [0, 0, 1, 0]"
  "slice c8_stream 24 32 = [0, 0, 0, 1, 2, 0, 5, 0xE5]"
  "slice c8_stream 44 44 = []"
  by (simp_all add: slice_def c8_stream_def)

lemma c8_chunk1:
  "getNextChunk c8_stream \<lparr>psi_data = [], psi_aDiskData = None, psi_cbDiskData = 0,
      psi_chunkOffset = 0, psi_chunkSize = 0, psi_sector = None, psi_sectorIndex = 0,
      psi_maxIndex = 0\<rparr>
   = Inr (CHUNK_PSI, [0, 0, 1, 0],
          \<lparr>psi_data = [], psi_aDiskData = None, psi_cbDiskData = 0,
      psi_chunkOffset = 0, psi_chunkSize = 4, psi_sector = None, psi_sectorIndex = 0,
      psi_maxIndex = 0\<rparr>)"
  by (simp add: getNextChunk_def bindE_def c8_reads c8_crc c8_slices)

lemma c8_chunk2:
  "getNextChunk c8_stream \<lparr>psi_data = [], psi_aDiskData = None, psi_cbDiskData = 0,
      psi_chunkOffset = 0, psi_chunkSize = 4, psi_sector = None, psi_sectorIndex = 0,
      psi_maxIndex = 0\<rparr>
   = Inr (CHUNK_SECT, [0, 0, 0, 1, 2, 0, 5, 0xE5],
          \<lparr>psi_data = [], psi_aDiskData = None, psi_cbDiskData = 0,
      psi_chunkOffset = 16, psi_chunkSize = 8, psi_sector = None, psi_sectorIndex = 0,
      psi_maxIndex = 0\<rparr>)"
  by (simp add: getNextChunk_def bindE_def c8_reads c8_crc c8_slices)

lemma c8_sect:
  "psi_SECT [0, 0, 0, 1, 2, 0, 5, 0xE5] \<lparr>psi_data = [], psi_aDiskData = None, psi_cbDiskData = 0,
      psi_chunkOffset = 16, psi_chunkSize = 8, psi_sector = None, psi_sectorIndex = 0,
      psi_maxIndex = 0\<rparr>
   = Inr \<lparr>psi_data = [[[c8_sector]]], psi_aDiskData = None, psi_cbDiskData = 512,
      psi_chunkOffset = 16, psi_chunkSize = 8, psi_sector = Some (0, 0), psi_sectorIndex = 1,
      psi_maxIndex = 128\<rparr>"
  by (simp add: psi_SECT_def bindE_def rd16BE_def rd8_def ranged_def readUInt16BE_def
        readUInt8_def pad_to_def c8_sector_def Let_def drop_bit_eq_div)

lemma c8_chunk3:
  "getNextChunk c8_stream \<lparr>psi_data = [[[c8_sector]]], psi_aDiskData = None, psi_cbDiskData = 512,
      psi_chunkOffset = 16, psi_chunkSize = 8, psi_sector = Some (0, 0), psi_sectorIndex = 1,
      psi_maxIndex = 128\<rparr>
   = Inr (CHUNK_END, [],
          \<lparr>psi_data = [[[c8_sector]]], psi_aDiskData = None, psi_cbDiskData = 512,
      psi_chunkOffset = 36, psi_chunkSize = 0, psi_sector = Some (0, 0), psi_sectorIndex = 1,
      psi_maxIndex = 128\<rparr>)"
  by (simp add: getNextChunk_def bindE_def c8_reads c8_crc c8_slices)

lemma c8_ids:
  "CHUNK_SECT \<noteq> CHUNK_END" "CHUNK_END \<noteq> CHUNK_SECT" "CHUNK_END \<noteq> CHUNK_DATA"
  "CHUNK_END \<noteq> CHUNK_IBMM" "CHUNK_END \<noteq> CHUNK_OFFS" "CHUNK_END \<noteq> CHUNK_TEXT"
  by (simp_all add: CHUNK_SECT_def CHUNK_END_def CHUNK_DATA_def CHUNK_IBMM_def CHUNK_OFFS_def
        CHUNK_TEXT_def)

lemma c8_loop1:
  "psi_loop (Suc n) c8_stream 48 \<lparr>psi_data = [[[c8_sector]]], psi_aDiskData = None,
      psi_cbDiskData = 512, psi_chunkOffset = 16, psi_chunkSize = 8, psi_sector = Some (0, 0),
      psi_sectorIndex = 1, psi_maxIndex = 128\<rparr>
   = Some (Inr \<lparr>psi_data = [[[c8_sector]]], psi_aDiskData = Some [[[c8_sector]]],
      psi_cbDiskData = 512, psi_chunkOffset = 36, psi_chunkSize = 0, psi_sector = Some (0, 0),
      psi_sectorIndex = 1, psi_maxIndex = 128\<rparr>)"
  unfolding psi_loop.simps c8_chunk3 by (simp add: c8_ids)

lemma c8_loop2:
  "psi_loop (Suc (Suc n)) c8_stream 48 \<lparr>psi_data = [], psi_aDiskData = None, psi_cbDiskData = 0,
      psi_chunkOffset = 0, psi_chunkSize = 4, psi_sector = None, psi_sectorIndex = 0,
      psi_maxIndex = 0\<rparr>
   = Some (Inr \<lparr>psi_data = [[[c8_sector]]], psi_aDiskData = Some [[[c8_sector]]],
      psi_cbDiskData = 512, psi_chunkOffset = 36, psi_chunkSize = 0, psi_sector = Some (0, 0),
      psi_sectorIndex = 1, psi_maxIndex = 128\<rparr>)"
  unfolding psi_loop.simps(2) [of "Suc n"] c8_chunk2
  using c8_loop1 [of n] by (simp add: c8_sect del: psi_loop.simps)

lemma c8_build:
  "buildDiskFromPSI (Suc (Suc n)) (new_DiskImage fW) c8_stream
     = Some (Inr (True, (new_DiskImage fW)\<lparr>di_aDiskData := Some [[[Some c8_sector]]],
                                              di_cbDiskData := 512\<rparr>))"
proof -
  have l: "length c8_stream = 48" by (simp add: c8_stream_def)
  show ?thesis
    unfolding buildDiskFromPSI_def Let_def c8_chunk1
    using c8_loop2 [of n]
    by (simp add: bindE_def rd16BE_def ranged_def readUInt16BE_def l new_DiskImage_def
          del: psi_loop.simps)
qed

end
